theory Spec2Isabelle
  imports Main "HOL-Library.Word" "HOL-Library.Monad_Syntax"
begin

section \<open>Block-level page I/O of the btree (src/btree/bt_rw.c)\<close>

text \<open>
  The file embeds the two functions of \<^verbatim>\<open>bt_rw.c\<close>, \<^verbatim>\<open>__wt_disk_read\<close> and
  \<^verbatim>\<open>__wt_disk_write\<close>, as HOL functions over byte lists. Memory that the C code
  reaches through a pointer is a list of bytes whose length is the allocated
  capacity; an access outside it is undefined behaviour in C and is the value
  \<open>None\<close> here. Values of type \<^verbatim>\<open>uint32_t\<close> and \<^verbatim>\<open>uint64_t\<close> are words, so
  that every addition and subtraction wraps as in C.
\<close>

subsection \<open>Machine integers and their encoding in memory\<close>

type_synonym u8 = "8 word"
type_synonym u32 = "32 word"
type_synonym u64 = "64 word"

text \<open>
  Little-endian encoding of a word in \<open>n\<close> bytes, and its decoding (the host byte
  order of the machines the code is built for).
\<close>

fun le_bytes :: "nat \<Rightarrow> 'a::len word \<Rightarrow> u8 list" where
  "le_bytes 0 w = []"
| "le_bytes (Suc n) w = ucast w # le_bytes n (drop_bit 8 w)"

fun le_word :: "u8 list \<Rightarrow> 'a::len word" where
  "le_word [] = 0"
| "le_word (b # bs) = ucast b + 256 * le_word bs"

text \<open>The same encoding on natural numbers; the proofs go through it.\<close>

fun bytes_of_nat :: "nat \<Rightarrow> nat \<Rightarrow> u8 list" where
  "bytes_of_nat 0 x = []"
| "bytes_of_nat (Suc n) x = of_nat (x mod 256) # bytes_of_nat n (x div 256)"

fun nat_of_bytes :: "u8 list \<Rightarrow> nat" where
  "nat_of_bytes [] = 0"
| "nat_of_bytes (b # bs) = unat b + 256 * nat_of_bytes bs"

subsection \<open>Raw memory\<close>

text \<open>
  \<open>mem_read m off n\<close> are the \<open>n\<close> bytes at \<open>m + off\<close>; \<open>mem_write m off bs\<close>
  stores \<open>bs\<close> there. Both are \<open>None\<close> when the range leaves the allocation.
\<close>

definition mem_read :: "u8 list \<Rightarrow> nat \<Rightarrow> nat \<Rightarrow> u8 list option" where
  "mem_read m off n = (if off + n \<le> length m then Some (take n (drop off m)) else None)"

definition mem_write :: "u8 list \<Rightarrow> nat \<Rightarrow> u8 list \<Rightarrow> u8 list option" where
  "mem_write m off bs =
     (if off + length bs \<le> length m
      then Some (take off m @ bs @ drop (off + length bs) m) else None)"

text \<open>\<^verbatim>\<open>memcpy(dst, src, n)\<close> and \<^verbatim>\<open>memset(m + off, 0, n)\<close>.\<close>

definition memcpy :: "u8 list \<Rightarrow> u8 list \<Rightarrow> nat \<Rightarrow> u8 list option" where
  "memcpy dst src n = do { bs \<leftarrow> mem_read src 0 n; mem_write dst 0 bs }"

definition memset0 :: "u8 list \<Rightarrow> nat \<Rightarrow> nat \<Rightarrow> u8 list option" where
  "memset0 m off n = mem_write m off (replicate n 0)"

definition get_u32 :: "u8 list \<Rightarrow> nat \<Rightarrow> u32 option" where
  "get_u32 m off = map_option le_word (mem_read m off 4)"

definition put_u32 :: "u8 list \<Rightarrow> nat \<Rightarrow> u32 \<Rightarrow> u8 list option" where
  "put_u32 m off v = mem_write m off (le_bytes 4 v)"

definition get_u64 :: "u8 list \<Rightarrow> nat \<Rightarrow> u64 option" where
  "get_u64 m off = map_option le_word (mem_read m off 8)"

definition put_u64 :: "u8 list \<Rightarrow> nat \<Rightarrow> u64 \<Rightarrow> u8 list option" where
  "put_u64 m off v = mem_write m off (le_bytes 8 v)"

subsection \<open>The page header \<^verbatim>\<open>WT_PAGE_DISK\<close>\<close>

text \<open>
  Modelled from the spec: the declaration of \<^verbatim>\<open>WT_PAGE_DISK\<close> is in
  \<^verbatim>\<open>wt_internal.h\<close>, which is not part of the sources. The layout is the one the
  specification gives for the leading 32 bytes of a block:
  \<^verbatim>\<open>checksum:u32, size:u32, memsize:u32, lsn:u64, type:u8, reserved\<close>, in host
  byte order (little-endian here).
\<close>

definition OFF_checksum :: nat where "OFF_checksum = 0"
definition OFF_size :: nat where "OFF_size = 4"
definition OFF_memsize :: nat where "OFF_memsize = 8"
definition OFF_lsn :: nat where "OFF_lsn = 12"

definition dsk_checksum :: "u8 list \<Rightarrow> u32 option" where
  "dsk_checksum m = get_u32 m OFF_checksum"

definition dsk_size :: "u8 list \<Rightarrow> u32 option" where
  "dsk_size m = get_u32 m OFF_size"

definition dsk_memsize :: "u8 list \<Rightarrow> u32 option" where
  "dsk_memsize m = get_u32 m OFF_memsize"

definition dsk_lsn :: "u8 list \<Rightarrow> u64 option" where
  "dsk_lsn m = get_u64 m OFF_lsn"

definition set_dsk_checksum :: "u8 list \<Rightarrow> u32 \<Rightarrow> u8 list option" where
  "set_dsk_checksum m v = put_u32 m OFF_checksum v"

definition set_dsk_size :: "u8 list \<Rightarrow> u32 \<Rightarrow> u8 list option" where
  "set_dsk_size m v = put_u32 m OFF_size v"

definition set_dsk_memsize :: "u8 list \<Rightarrow> u32 \<Rightarrow> u8 list option" where
  "set_dsk_memsize m v = put_u32 m OFF_memsize v"

definition set_dsk_lsn :: "u8 list \<Rightarrow> u64 \<Rightarrow> u8 list option" where
  "set_dsk_lsn m v = put_u64 m OFF_lsn v"

text \<open>\<^verbatim>\<open>#define COMPRESS_SKIP 32\<close>\<close>

definition COMPRESS_SKIP :: u32 where
  "COMPRESS_SKIP = 32"

subsection \<open>Buffers, the session and the external collaborators\<close>

text \<open>
  \<^verbatim>\<open>WT_BUF\<close>: \<open>buf_mem\<close> is the memory \<^verbatim>\<open>buf->mem\<close> points to (its length is the
  allocated capacity), \<open>buf_size\<close> is \<^verbatim>\<open>buf->size\<close>.
\<close>

record WT_BUF =
  buf_mem :: "u8 list"
  buf_size :: u32

text \<open>
  \<^verbatim>\<open>WT_COMPRESSOR\<close>: both callbacks get the source bytes and the capacity
  \<^verbatim>\<open>dst.size\<close> of the destination; they return the bytes they produced (whose
  number becomes \<^verbatim>\<open>dst.size\<close>), or \<open>None\<close> for a non-zero return code.
\<close>

record WT_COMPRESSOR =
  compress :: "u8 list \<Rightarrow> nat \<Rightarrow> u8 list option"
  decompress :: "u8 list \<Rightarrow> nat \<Rightarrow> u8 list option"

text \<open>
  The state a call works on: the fields of \<^verbatim>\<open>session->btree\<close> that \<^verbatim>\<open>bt_rw.c\<close>
  touches (\<^verbatim>\<open>allocsize\<close>, \<^verbatim>\<open>lsn\<close>, \<^verbatim>\<open>compressor\<close>, the file handle \<^verbatim>\<open>fh\<close>), the
  state of the block allocator, and the four statistics counters.
\<close>

record ('f, 'a) WT_SESSION_IMPL =
  allocsize :: u32
  lsn :: u64
  compressor :: "WT_COMPRESSOR option"
  fh :: 'f
  blocks :: 'a
  page_read :: nat
  block_read :: nat
  page_write :: nat
  block_write :: nat

text \<open>
  The functions \<^verbatim>\<open>bt_rw.c\<close> calls and that the sources do not contain are
  parameters of the model. \<open>wt_read f off n\<close> and \<open>wt_write f off bs\<close> are
  \<^verbatim>\<open>__wt_read\<close> and \<^verbatim>\<open>__wt_write\<close> on the file \<open>f\<close> (\<open>None\<close>: the call fails);
  \<open>wt_block_alloc\<close> is \<^verbatim>\<open>__wt_block_alloc\<close>; \<open>wt_scr_mem n\<close> is the memory the
  scratch pool hands out for a request of \<open>n\<close> bytes (\<open>None\<close>: no memory);
  \<open>wt_verify_dsk\<close> is \<^verbatim>\<open>__wt_verify_dsk(...) == 0\<close>, and \<open>diagnostic\<close> tells
  whether \<^verbatim>\<open>WT_ASSERT\<close> is compiled in.
\<close>

record ('f, 'a) WT_ENV =
  wt_cksum :: "u8 list \<Rightarrow> u32"
  wt_read :: "'f \<Rightarrow> nat \<Rightarrow> nat \<Rightarrow> u8 list option"
  wt_write :: "'f \<Rightarrow> nat \<Rightarrow> u8 list \<Rightarrow> 'f option"
  wt_block_alloc :: "'a \<Rightarrow> u32 \<Rightarrow> (u32 \<times> 'a) option"
  wt_scr_mem :: "u32 \<Rightarrow> u8 list option"
  wt_verify_dsk :: "u8 list \<Rightarrow> u32 \<Rightarrow> bool"
  diagnostic :: bool

text \<open>
  Modelled from the spec: \<^verbatim>\<open>__wt_scr_alloc(session, n, &tmp)\<close> is not part of the
  sources. The specification has it acquire a scratch buffer of \<open>n\<close> bytes, so the
  buffer it returns has \<^verbatim>\<open>tmp->size\<close> equal to \<open>n\<close>; the contents of its memory are
  whatever the pool hands out.
\<close>

definition wt_scr_alloc :: "('f, 'a) WT_ENV \<Rightarrow> u32 \<Rightarrow> WT_BUF option" where
  "wt_scr_alloc env n =
     (case wt_scr_mem env n of
        None \<Rightarrow> None
      | Some m \<Rightarrow> Some \<lparr>buf_mem = m, buf_size = n\<rparr>)"

text \<open>
  Modelled from the spec: the macro \<^verbatim>\<open>WT_ALIGN(n, v)\<close> is not part of the sources.
  The specification has it round \<open>n\<close> up to a multiple of the allocation unit
  \<open>v\<close>; \<open>round_up\<close> is that function on natural numbers, and \<open>WT_ALIGN\<close> is
  its value in the \<^verbatim>\<open>uint32_t\<close> variable the code stores it in.
\<close>

definition round_up :: "nat \<Rightarrow> nat \<Rightarrow> nat" where
  "round_up n v = ((n + (v - 1)) div v) * v"

definition WT_ALIGN :: "u32 \<Rightarrow> u32 \<Rightarrow> u32" where
  "WT_ALIGN n v = of_nat (round_up (unat n) (unat v))"

text \<open>
  Modelled from the spec: \<^verbatim>\<open>WT_ADDR_TO_OFF(btree, addr)\<close> is the byte offset
  \<open>addr * allocation_unit\<close> (an \<^verbatim>\<open>off_t\<close>, which the product of two 32-bit values
  does not overflow), and \<^verbatim>\<open>WT_LSN_INCR\<close> increments the 64-bit counter.
\<close>

definition WT_ADDR_TO_OFF :: "('f, 'a) WT_SESSION_IMPL \<Rightarrow> u32 \<Rightarrow> nat" where
  "WT_ADDR_TO_OFF s addr = unat addr * unat (allocsize s)"

definition WT_LSN_INCR :: "u64 \<Rightarrow> u64" where
  "WT_LSN_INCR l = l + 1"

text \<open>
  The value a call returns. In the C code all of them are \<^verbatim>\<open>int\<close>s; the model
  names the place each one comes from: \<open>IOFailure\<close> is a failing \<^verbatim>\<open>__wt_read\<close> or
  \<^verbatim>\<open>__wt_write\<close>, \<open>ChecksumMismatch\<close> the \<^verbatim>\<open>WT_FAILURE_RET\<close> of the read,
  \<open>ScratchFailed\<close> a failing \<^verbatim>\<open>__wt_scr_alloc\<close>, \<open>DecompressionFailed\<close> a failing
  \<^verbatim>\<open>decompress\<close> callback and \<open>AllocationFailed\<close> a failing \<^verbatim>\<open>__wt_block_alloc\<close>.
\<close>

datatype wt_ret =
  OK | IOFailure | ChecksumMismatch | ScratchFailed | DecompressionFailed | AllocationFailed

subsection \<open>\<^verbatim>\<open>__wt_disk_read\<close>\<close>

text \<open>
  The result is the return value together with the session and the caller's
  \<^verbatim>\<open>WT_BUF\<close> as the call leaves them, on every path: the code reads into the
  caller's memory before it verifies anything. \<open>None\<close> is undefined behaviour
  (an access outside an allocation, or a call through the null \<^verbatim>\<open>compressor\<close>).
  What a failing \<^verbatim>\<open>__wt_read\<close> leaves in the buffer is not visible in the sources; the
  model leaves the buffer as it was.
\<close>

text \<open>Lines 65 to 85: the block is verified, \<open>buf\<close> holds it.\<close>

definition disk_read_decompress ::
  "('f, 'a) WT_ENV \<Rightarrow> ('f, 'a) WT_SESSION_IMPL \<Rightarrow> WT_BUF \<Rightarrow>
     (wt_ret \<times> ('f, 'a) WT_SESSION_IMPL \<times> WT_BUF) option" where
  "disk_read_decompress env s buf = do {
     dsize \<leftarrow> dsk_size (buf_mem buf);
     dmemsize \<leftarrow> dsk_memsize (buf_mem buf);
     if dsize = dmemsize then Some (OK, s, buf)
     else
       (case wt_scr_alloc env dmemsize of
          None \<Rightarrow> Some (ScratchFailed, s, buf)
        | Some tmp \<Rightarrow> do {
            t1 \<leftarrow> memcpy (buf_mem tmp) (buf_mem buf) (unat COMPRESS_SKIP);
            src \<leftarrow> mem_read (buf_mem buf) (unat COMPRESS_SKIP)
                     (unat (buf_size buf - COMPRESS_SKIP));
            let dst_size = unat (buf_size tmp - COMPRESS_SKIP);
            c \<leftarrow> compressor s;
            case decompress c src dst_size of
              None \<Rightarrow> Some (DecompressionFailed, s, buf)
            | Some out \<Rightarrow>
                if dst_size < length out then None
                else do {
                  t2 \<leftarrow> mem_write t1 (unat COMPRESS_SKIP) out;
                  Some (OK, s, tmp\<lparr>buf_mem := t2\<rparr>)
                }
          })
   }"

text \<open>Lines 38 to 58, then the lines above.\<close>

definition wt_disk_read ::
  "('f, 'a) WT_ENV \<Rightarrow> ('f, 'a) WT_SESSION_IMPL \<Rightarrow> WT_BUF \<Rightarrow> u32 \<Rightarrow> u32 \<Rightarrow>
     (wt_ret \<times> ('f, 'a) WT_SESSION_IMPL \<times> WT_BUF) option" where
  "wt_disk_read env s buf addr sz =
     (case wt_read env (fh s) (WT_ADDR_TO_OFF s addr) (unat sz) of
        None \<Rightarrow> Some (IOFailure, s, buf)
      | Some bytes \<Rightarrow> do {
          m0 \<leftarrow> mem_write (buf_mem buf) 0 bytes;
          checksum \<leftarrow> dsk_checksum m0;
          m1 \<leftarrow> set_dsk_checksum m0 0;
          blk \<leftarrow> mem_read m1 0 (unat sz);
          if checksum \<noteq> wt_cksum env blk
          then Some (ChecksumMismatch, s, buf\<lparr>buf_mem := m1\<rparr>)
          else disk_read_decompress env
                 (s\<lparr>page_read := page_read s + 1, block_read := block_read s + 1\<rparr>)
                 (buf\<lparr>buf_mem := m1\<rparr>)
        })"

subsection \<open>\<^verbatim>\<open>__wt_disk_write\<close>\<close>

text \<open>
  The pointer \<^verbatim>\<open>dsk\<close> aliases the memory of the caller's buffer or, once the
  compressed form is adopted, the memory of the scratch buffer \<^verbatim>\<open>tmp\<close>.
\<close>

datatype dsk_ptr = In_buf | In_tmp

text \<open>
  The locals at line 212, where both branches of the compression decision meet.
  \<open>p_ret\<close> is \<open>OK\<close> there; it is \<open>ScratchFailed\<close> when \<^verbatim>\<open>WT_RET\<close> has left the
  function at line 166.
\<close>

record prepared =
  p_ret :: wt_ret
  p_buf :: WT_BUF
  p_tmp :: "WT_BUF option"
  p_dsk :: dsk_ptr
  p_align :: u32

text \<open>The label \<^verbatim>\<open>not_compressed\<close>, lines 134 to 159.\<close>

definition not_compressed :: "WT_BUF \<Rightarrow> WT_BUF option \<Rightarrow> u32 \<Rightarrow> prepared option" where
  "not_compressed buf tmp align_size = do {
     m1 \<leftarrow> memset0 (buf_mem buf) (unat (buf_size buf)) (unat (align_size - buf_size buf));
     m2 \<leftarrow> set_dsk_memsize m1 align_size;
     m3 \<leftarrow> set_dsk_size m2 align_size;
     Some \<lparr>p_ret = OK, p_buf = \<lparr>buf_mem = m3, buf_size = align_size\<rparr>, p_tmp = tmp,
           p_dsk = In_buf, p_align = align_size\<rparr>
   }"

text \<open>Lines 103 to 210.\<close>

definition disk_write_prepare ::
  "('f, 'a) WT_ENV \<Rightarrow> ('f, 'a) WT_SESSION_IMPL \<Rightarrow> WT_BUF \<Rightarrow> prepared option" where
  "disk_write_prepare env s buf0 = do {
     m1 \<leftarrow> set_dsk_memsize (buf_mem buf0) (buf_size buf0);
     m2 \<leftarrow> set_dsk_size m1 (buf_size buf0);
     let buf = buf0\<lparr>buf_mem := m2\<rparr>;
     if diagnostic env \<and> \<not> wt_verify_dsk env m2 (buf_size buf) then None
     else do {
       let align_size = WT_ALIGN (buf_size buf) (allocsize s);
       case compressor s of
         None \<Rightarrow> not_compressed buf None align_size
       | Some c \<Rightarrow>
           if align_size = allocsize s then not_compressed buf None align_size
           else
             (case wt_scr_alloc env (buf_size buf) of
                None \<Rightarrow> Some \<lparr>p_ret = ScratchFailed, p_buf = buf, p_tmp = None,
                               p_dsk = In_buf, p_align = align_size\<rparr>
              | Some tmp \<Rightarrow> do {
                  src \<leftarrow> mem_read (buf_mem buf) (unat COMPRESS_SKIP)
                           (unat (buf_size buf - COMPRESS_SKIP));
                  let dst_size = unat (buf_size buf - COMPRESS_SKIP);
                  case compress c src dst_size of
                    None \<Rightarrow> not_compressed buf (Some tmp) align_size
                  | Some out \<Rightarrow>
                      if dst_size < length out then None
                      else do {
                        t1 \<leftarrow> mem_write (buf_mem tmp) (unat COMPRESS_SKIP) out;
                        let tmp_size = of_nat (length out) + COMPRESS_SKIP;
                        let tmp1 = \<lparr>buf_mem = t1, buf_size = tmp_size\<rparr>;
                        let size' = WT_ALIGN tmp_size (allocsize s);
                        if size' \<ge> align_size then not_compressed buf (Some tmp1) align_size
                        else do {
                          t2 \<leftarrow> memcpy t1 (buf_mem buf) (unat COMPRESS_SKIP);
                          t3 \<leftarrow> memset0 t2 (unat tmp_size) (unat (size' - tmp_size));
                          t4 \<leftarrow> set_dsk_size t3 size';
                          Some \<lparr>p_ret = OK, p_buf = buf,
                                p_tmp = Some \<lparr>buf_mem = t4, buf_size = tmp_size\<rparr>,
                                p_dsk = In_tmp, p_align = size'\<rparr>
                        }
                      }
                })
     }
   }"

text \<open>The memory \<^verbatim>\<open>dsk\<close> points to, and a store through \<^verbatim>\<open>dsk\<close>.\<close>

definition dsk_deref :: "prepared \<Rightarrow> u8 list option" where
  "dsk_deref p =
     (case p_dsk p of
        In_buf \<Rightarrow> Some (buf_mem (p_buf p))
      | In_tmp \<Rightarrow> map_option buf_mem (p_tmp p))"

definition dsk_store :: "prepared \<Rightarrow> u8 list \<Rightarrow> prepared" where
  "dsk_store p m =
     (case p_dsk p of
        In_buf \<Rightarrow> p\<lparr>p_buf := (p_buf p)\<lparr>buf_mem := m\<rparr>\<rparr>
      | In_tmp \<Rightarrow> p\<lparr>p_tmp := map_option (\<lambda>t. t\<lparr>buf_mem := m\<rparr>) (p_tmp p)\<rparr>)"

text \<open>
  What a call of \<^verbatim>\<open>__wt_disk_write\<close> leaves behind: the return value, the session,
  the caller's buffer, the values stored through \<^verbatim>\<open>addrp\<close> and \<^verbatim>\<open>sizep\<close> (\<open>None\<close>:
  not stored), which memory \<^verbatim>\<open>dsk\<close> pointed to, and \<open>w_block\<close>, the \<^verbatim>\<open>align_size\<close>
  bytes at \<^verbatim>\<open>dsk\<close> that line 239 hands to \<^verbatim>\<open>__wt_write\<close> (empty when the call
  returns before that line).
\<close>

record ('f, 'a) written =
  w_ret :: wt_ret
  w_session :: "('f, 'a) WT_SESSION_IMPL"
  w_buf :: WT_BUF
  w_addr :: "u32 option"
  w_size :: "u32 option"
  w_dsk :: dsk_ptr
  w_block :: "u8 list"

text \<open>Lines 212 to 257.\<close>

definition disk_write_finish ::
  "('f, 'a) WT_ENV \<Rightarrow> ('f, 'a) WT_SESSION_IMPL \<Rightarrow> prepared \<Rightarrow> ('f, 'a) written option" where
  "disk_write_finish env s p =
     (case wt_block_alloc env (blocks s) (p_align p) of
        None \<Rightarrow> Some \<lparr>w_ret = AllocationFailed, w_session = s, w_buf = p_buf p,
                       w_addr = None, w_size = None, w_dsk = p_dsk p, w_block = []\<rparr>
      | Some (addr, bl) \<Rightarrow> do {
          let s1 = s\<lparr>blocks := bl, lsn := WT_LSN_INCR (lsn s)\<rparr>;
          d0 \<leftarrow> dsk_deref p;
          d1 \<leftarrow> set_dsk_lsn d0 (lsn s1);
          d2 \<leftarrow> set_dsk_checksum d1 0;
          blk \<leftarrow> mem_read d2 0 (unat (p_align p));
          d3 \<leftarrow> set_dsk_checksum d2 (wt_cksum env blk);
          block \<leftarrow> mem_read d3 0 (unat (p_align p));
          let p1 = dsk_store p d3;
          case wt_write env (fh s1) (WT_ADDR_TO_OFF s1 addr) block of
            None \<Rightarrow> Some \<lparr>w_ret = IOFailure, w_session = s1, w_buf = p_buf p1,
                           w_addr = None, w_size = None, w_dsk = p_dsk p, w_block = block\<rparr>
          | Some f \<Rightarrow>
              Some \<lparr>w_ret = OK,
                    w_session = s1\<lparr>fh := f, page_write := page_write s1 + 1,
                                   block_write := block_write s1 + 1\<rparr>,
                    w_buf = p_buf p1, w_addr = Some addr, w_size = Some (p_align p),
                    w_dsk = p_dsk p, w_block = block\<rparr>
        })"

definition wt_disk_write ::
  "('f, 'a) WT_ENV \<Rightarrow> ('f, 'a) WT_SESSION_IMPL \<Rightarrow> WT_BUF \<Rightarrow> ('f, 'a) written option" where
  "wt_disk_write env s buf = do {
     p \<leftarrow> disk_write_prepare env s buf;
     if p_ret p \<noteq> OK
     then Some \<lparr>w_ret = p_ret p, w_session = s, w_buf = p_buf p, w_addr = None,
                w_size = None, w_dsk = p_dsk p, w_block = []\<rparr>
     else disk_write_finish env s p
   }"


subsection \<open>A concrete instance\<close>

text \<open>
  The theorems below hold for every choice of the collaborators. The instance
  defined here is the one they are applied to at concrete inputs: a checksum that
  adds the bytes up, a file that is a list of bytes (a write past its end extends
  it with zeros, a read past its end fails), an allocator that hands out
  consecutive addresses, a scratch pool whose memory is filled with \<open>0xAA\<close>, and
  a codec that stores a run of one repeated byte as that byte.
\<close>

definition sum_cksum :: "u8 list \<Rightarrow> u32" where
  "sum_cksum bs = foldr (\<lambda>b acc. ucast b + acc) bs 0"

definition file_read :: "u8 list \<Rightarrow> nat \<Rightarrow> nat \<Rightarrow> u8 list option" where
  "file_read f off n = mem_read f off n"

definition file_write :: "u8 list \<Rightarrow> nat \<Rightarrow> u8 list \<Rightarrow> u8 list option" where
  "file_write f off bs = mem_write (f @ replicate (off + length bs - length f) 0) off bs"

definition run_compress :: "u8 list \<Rightarrow> nat \<Rightarrow> u8 list option" where
  "run_compress src cap =
     (case src of
        [] \<Rightarrow> None
      | b # bs \<Rightarrow> if list_all (\<lambda>x. x = b) bs \<and> 0 < cap then Some [b] else None)"

definition run_decompress :: "u8 list \<Rightarrow> nat \<Rightarrow> u8 list option" where
  "run_decompress src cap = (case src of [] \<Rightarrow> None | b # bs \<Rightarrow> Some (replicate cap b))"

definition run_codec :: WT_COMPRESSOR where
  "run_codec = \<lparr>compress = run_compress, decompress = run_decompress\<rparr>"

definition demo_env :: "(u8 list, u32) WT_ENV" where
  "demo_env = \<lparr>wt_cksum = sum_cksum, wt_read = file_read, wt_write = file_write,
     wt_block_alloc = (\<lambda>a n. Some (a, a + n div 512)),
     wt_scr_mem = (\<lambda>n. Some (replicate (unat n) 170)),
     wt_verify_dsk = (\<lambda>m n. True), diagnostic = False\<rparr>"

definition demo_session :: "(u8 list, u32) WT_SESSION_IMPL" where
  "demo_session = \<lparr>allocsize = 512, lsn = 41, compressor = Some run_codec, fh = [],
     blocks = 0, page_read = 0, block_read = 0, page_write = 0, block_write = 0\<rparr>"

text \<open>A file whose first block does not carry its checksum, and a buffer to read it into.\<close>

definition corrupt_session :: "(u8 list, u32) WT_SESSION_IMPL" where
  "corrupt_session = demo_session\<lparr>fh := replicate 512 1\<rparr>"

definition blank_buf :: WT_BUF where
  "blank_buf = \<lparr>buf_mem = replicate 512 0, buf_size = 512\<rparr>"

text \<open>
  A file whose first block is a well-formed compressed block: checksum 99, size
  512, memsize 600, and the payload of 568 sevens stored as one byte.
\<close>

definition packed_block :: "u8 list" where
  "packed_block =
     [99, 0, 0, 0, 0, 2, 0, 0, 88, 2, 0, 0] @ replicate 20 0 @ [7] @ replicate 479 0"

definition packed_session :: "(u8 list, u32) WT_SESSION_IMPL" where
  "packed_session = demo_session\<lparr>fh := packed_block\<rparr>"

text \<open>
  The page image of the specification's examples A and B: 600 bytes (a header of
  32 bytes and a payload of 568 sevens) in a buffer with room up to the next
  allocation boundary at 1024, and the session without a compressor.
\<close>

definition demo_page :: WT_BUF where
  "demo_page = \<lparr>buf_mem = replicate 32 1 @ replicate 568 7 @ replicate 424 9, buf_size = 600\<rparr>"

definition plain_session :: "(u8 list, u32) WT_SESSION_IMPL" where
  "plain_session = demo_session\<lparr>compressor := None\<rparr>"

text \<open>
  A page whose payload is not a run (the codec declines it), a page of 40 bytes,
  and a session whose counter is two steps from the end of the 64-bit range.
\<close>

definition mixed_page :: WT_BUF where
  "mixed_page =
     \<lparr>buf_mem = replicate 32 1 @ replicate 567 7 @ [8] @ replicate 424 9, buf_size = 600\<rparr>"

definition small_page :: WT_BUF where
  "small_page = \<lparr>buf_mem = replicate 32 1 @ replicate 8 7 @ replicate 472 9, buf_size = 40\<rparr>"

definition wrap_session :: "(u8 list, u32) WT_SESSION_IMPL" where
  "wrap_session = plain_session\<lparr>lsn := 18446744073709551614\<rparr>"

text \<open>
  A codec whose \<^verbatim>\<open>decompress\<close> accepts exactly what \<^verbatim>\<open>compress\<close> produces, one
  byte, and nothing longer.
\<close>

definition strict_decompress :: "u8 list \<Rightarrow> nat \<Rightarrow> u8 list option" where
  "strict_decompress src cap = (case src of [b] \<Rightarrow> Some (replicate cap b) | _ \<Rightarrow> None)"

definition strict_codec :: WT_COMPRESSOR where
  "strict_codec = \<lparr>compress = run_compress, decompress = strict_decompress\<rparr>"

definition strict_session :: "(u8 list, u32) WT_SESSION_IMPL" where
  "strict_session = demo_session\<lparr>compressor := Some strict_codec\<rparr>"

subsection \<open>Sequences of calls\<close>

text \<open>
  \<open>write_seq\<close> is a sequence of \<^verbatim>\<open>__wt_disk_write\<close> calls on one btree: each call
  works on the session the call before it has left. The result lists the \<^verbatim>\<open>lsn\<close>
  found in the header of each persisted block, and there is none as soon as one
  call does not return 0.
\<close>

fun write_seq ::
  "('f, 'a) WT_ENV \<Rightarrow> ('f, 'a) WT_SESSION_IMPL \<Rightarrow> WT_BUF list \<Rightarrow> u64 list option" where
  "write_seq env s [] = Some []"
| "write_seq env s (b # bs) =
     (case wt_disk_write env s b of
        None \<Rightarrow> None
      | Some r \<Rightarrow>
          if w_ret r \<noteq> OK then None
          else do {
            l \<leftarrow> dsk_lsn (w_block r);
            ls \<leftarrow> write_seq env (w_session r) bs;
            Some (l # ls)
          })"

text \<open>
  \<open>write_then_read\<close> writes \<open>buf\<close> and reads the block back into \<open>rbuf\<close> at the
  address and size the write has returned, with \<^verbatim>\<open>rbuf->size\<close> set to that size as
  the callers of \<^verbatim>\<open>__wt_disk_read\<close> do. The result is the two return values, the
  first four bytes of the persisted block and the first four bytes of the buffer
  after the read.
\<close>

definition write_then_read ::
  "('f, 'a) WT_ENV \<Rightarrow> ('f, 'a) WT_SESSION_IMPL \<Rightarrow> WT_BUF \<Rightarrow> WT_BUF \<Rightarrow>
     (wt_ret \<times> wt_ret \<times> u8 list \<times> u8 list) option" where
  "write_then_read env s buf rbuf = do {
     r \<leftarrow> wt_disk_write env s buf;
     addr \<leftarrow> w_addr r;
     sz \<leftarrow> w_size r;
     res \<leftarrow> wt_disk_read env (w_session r) (rbuf\<lparr>buf_size := sz\<rparr>) addr sz;
     Some (w_ret r, fst res, take 4 (w_block r), take 4 (buf_mem (snd (snd res))))
   }"

section \<open>Properties\<close>

subsection \<open>Encoding and raw memory\<close>

lemma length_bytes_of_nat [simp]: "length (bytes_of_nat n x) = n"
  by (induction n arbitrary: x) simp_all

lemma nat_of_bytes_of_nat: "nat_of_bytes (bytes_of_nat n x) = x mod 256 ^ n"
proof (induction n arbitrary: x)
  case 0
  show ?case by simp
next
  case (Suc n)
  have "unat (of_nat (x mod 256) :: u8) = x mod 256"
    by (simp add: unat_of_nat)
  then show ?case
    using Suc [of "x div 256"] by (simp add: mod_mult2_eq)
qed

lemma le_bytes_nat: "le_bytes n w = bytes_of_nat n (unat w)"
proof (induction n arbitrary: w)
  case 0
  show ?case by simp
next
  case (Suc n)
  have "(ucast w :: u8) = of_nat (unat w mod 256)"
    by (simp add: word_eq_iff_unsigned [where ?'a = nat] unsigned_ucast_eq unat_of_nat
        take_bit_eq_mod)
  moreover have "unat (drop_bit 8 w) = unat w div 256"
  proof -
    have "unat (drop_bit 8 w) = drop_bit 8 (unat w)" by (rule unat_drop_bit_eq)
    also have "\<dots> = unat w div 256" by (simp add: drop_bit_eq_div)
    finally show ?thesis .
  qed
  ultimately show ?case using Suc by simp
qed

lemma le_word_nat: "(le_word bs :: 'a::len word) = of_nat (nat_of_bytes bs)"
  by (induction bs) simp_all

lemma length_le_bytes [simp]: "length (le_bytes n w) = n"
  by (simp add: le_bytes_nat)

lemma le_word_le_bytes_u32: "le_word (le_bytes 4 (w :: u32)) = w"
proof -
  have "unat w < 2 ^ 32" using unsigned_less [of w] by simp
  then have "unat w mod 256 ^ 4 = unat w" by simp
  then show ?thesis by (simp add: le_word_nat le_bytes_nat nat_of_bytes_of_nat)
qed

lemma le_word_le_bytes_u64: "le_word (le_bytes 8 (w :: u64)) = w"
proof -
  have "unat w < 2 ^ 64" using unsigned_less [of w] by simp
  then have "unat w mod 256 ^ 8 = unat w" by simp
  then show ?thesis by (simp add: le_word_nat le_bytes_nat nat_of_bytes_of_nat)
qed

lemma mem_write_length: "mem_write m off bs = Some m' \<Longrightarrow> length m' = length m"
  by (auto simp: mem_write_def split: if_splits)

lemma mem_read_length: "mem_read m off n = Some bs \<Longrightarrow> length bs = n"
  by (auto simp: mem_read_def split: if_splits)

lemma mem_write_nth:
  "mem_write m off bs = Some m' \<Longrightarrow> i < length m \<Longrightarrow>
     m' ! i = (if off \<le> i \<and> i < off + length bs then bs ! (i - off) else m ! i)"
  by (auto simp: mem_write_def nth_append split: if_splits)

lemma mem_read_iff:
  "mem_read m off n = Some bs \<longleftrightarrow>
     off + n \<le> length m \<and> length bs = n \<and> (\<forall>i<n. bs ! i = m ! (off + i))"
  by (auto simp: mem_read_def list_eq_iff_nth_eq)

lemma mem_read_eqI:
  "off + n \<le> length m \<Longrightarrow> off' + n \<le> length m' \<Longrightarrow>
     (\<And>i. i < n \<Longrightarrow> m ! (off + i) = m' ! (off' + i)) \<Longrightarrow> mem_read m off n = mem_read m' off' n"
  by (auto simp: mem_read_def list_eq_iff_nth_eq)

lemma mem_read_write_same:
  "mem_write m off bs = Some m' \<Longrightarrow> mem_read m' off (length bs) = Some bs"
  by (auto simp: mem_write_def mem_read_def split: if_splits)

lemma mem_read_write_other:
  assumes "mem_write m off bs = Some m'" and "o2 + n \<le> off \<or> off + length bs \<le> o2"
  shows "mem_read m' o2 n = mem_read m o2 n"
proof (cases "o2 + n \<le> length m")
  case True
  show ?thesis
  proof (rule mem_read_eqI)
    show "o2 + n \<le> length m'" using True mem_write_length [OF assms(1)] by simp
    show "o2 + n \<le> length m" by (rule True)
    fix i assume "i < n"
    then show "m' ! (o2 + i) = m ! (o2 + i)"
      using assms(2) True mem_write_nth [OF assms(1), of "o2 + i"] by auto
  qed
next
  case False
  then show ?thesis using mem_write_length [OF assms(1)] by (simp add: mem_read_def)
qed

lemma mem_read_take:
  "off + n \<le> k \<Longrightarrow> mem_read (take k m) off n = mem_read m off n"
  by (auto simp: mem_read_def list_eq_iff_nth_eq)

lemma mem_read_zero: "mem_read m 0 n = Some bs \<Longrightarrow> bs = take n m \<and> n \<le> length m"
  by (auto simp: mem_read_def split: if_splits)

lemma mem_write_drop:
  "mem_write m off bs = Some m' \<Longrightarrow> off + length bs \<le> k \<Longrightarrow> drop k m' = drop k m"
  by (auto simp: mem_write_def split: if_splits)

lemma mem_write_take:
  "mem_write m off bs = Some m' \<Longrightarrow> k \<le> off \<Longrightarrow> take k m' = take k m"
  by (auto simp: mem_write_def split: if_splits)

subsection \<open>Alignment\<close>

lemma round_up_dvd: "v dvd round_up n v"
  by (simp add: round_up_def)

lemma round_up_ge: "0 < v \<Longrightarrow> n \<le> round_up n v"
proof -
  assume v: "0 < v"
  define q r where "q = (n + (v - 1)) div v" and "r = (n + (v - 1)) mod v"
  have eq: "q * v + r = n + (v - 1)" by (simp add: q_def r_def)
  have "r < v" using v by (simp add: r_def)
  with eq have "n \<le> q * v" by linarith
  then show ?thesis by (simp add: round_up_def q_def)
qed

lemma round_up_less: "0 < v \<Longrightarrow> round_up n v < n + v"
proof -
  assume v: "0 < v"
  have "(n + (v - 1)) div v * v \<le> n + (v - 1)" by simp
  then show ?thesis using v unfolding round_up_def by linarith
qed

lemma round_up_mono: "n \<le> m \<Longrightarrow> round_up n v \<le> round_up m v"
  unfolding round_up_def by (intro mult_le_mono1 div_le_mono) simp

lemma round_up_ge_unit: "0 < v \<Longrightarrow> 0 < n \<Longrightarrow> v \<le> round_up n v"
proof -
  assume v: "0 < v" and n: "0 < n"
  have "0 < round_up n v" using round_up_ge [OF v, of n] n by simp
  then show ?thesis using round_up_dvd [of v n] by (auto simp: dvd_def)
qed

lemma round_up_multiples:
  assumes "v dvd a" "v dvd b" "a \<le> b" "b < a + v"
  shows "a = (b::nat)"
proof -
  from assms obtain k l where a: "a = v * k" and b: "b = v * l" by (auto simp: dvd_def)
  have "l \<le> k"
  proof (rule ccontr)
    assume "\<not> l \<le> k"
    then have "Suc k \<le> l" by simp
    then have "v * Suc k \<le> v * l" by (rule mult_le_mono2)
    with assms(4) a b show False by simp
  qed
  then have "v * l \<le> v * k" by (rule mult_le_mono2)
  then have "b \<le> a" by (simp only: a b)
  with assms(3) show ?thesis by simp
qed

lemma unat_WT_ALIGN: "unat (WT_ALIGN n v) = round_up (unat n) (unat v) mod 2 ^ 32"
  by (simp add: WT_ALIGN_def unat_of_nat)

lemma align_gap:
  assumes "v \<noteq> 0"
  shows "unat (WT_ALIGN n v - n) = round_up (unat n) (unat v) - unat n"
proof -
  let ?R = "round_up (unat n) (unat v)"
  have v: "0 < unat v" using assms by (simp add: unat_gt_0)
  have ge: "unat n \<le> ?R" by (rule round_up_ge [OF v])
  have "?R - unat n < unat v" using round_up_less [OF v, of "unat n"] ge by arith
  moreover have "unat v < 2 ^ 32" using unsigned_less [of v] by simp
  ultimately have small: "?R - unat n < 2 ^ 32" by simp
  have "WT_ALIGN n v - n = of_nat ?R - of_nat (unat n)" by (simp add: WT_ALIGN_def)
  also have "\<dots> = of_nat (?R - unat n)" using ge by simp
  finally show ?thesis using small by (simp add: unat_of_nat)
qed

subsection \<open>Header fields\<close>

lemmas hdr_defs = dsk_checksum_def dsk_size_def dsk_memsize_def dsk_lsn_def
  set_dsk_checksum_def set_dsk_size_def set_dsk_memsize_def set_dsk_lsn_def
  get_u32_def put_u32_def get_u64_def put_u64_def
  OFF_checksum_def OFF_size_def OFF_memsize_def OFF_lsn_def

lemma get_u32_put_same: "put_u32 m off v = Some m' \<Longrightarrow> get_u32 m' off = Some v"
  using mem_read_write_same [of m off "le_bytes 4 v" m']
  by (simp add: get_u32_def put_u32_def le_word_le_bytes_u32)

lemma get_u64_put_same: "put_u64 m off v = Some m' \<Longrightarrow> get_u64 m' off = Some v"
  using mem_read_write_same [of m off "le_bytes 8 v" m']
  by (simp add: get_u64_def put_u64_def le_word_le_bytes_u64)

lemma get_u32_write_other:
  "mem_write m off bs = Some m' \<Longrightarrow> o2 + 4 \<le> off \<or> off + length bs \<le> o2 \<Longrightarrow>
     get_u32 m' o2 = get_u32 m o2"
  by (simp add: get_u32_def mem_read_write_other)

lemma get_u64_write_other:
  "mem_write m off bs = Some m' \<Longrightarrow> o2 + 8 \<le> off \<or> off + length bs \<le> o2 \<Longrightarrow>
     get_u64 m' o2 = get_u64 m o2"
  by (simp add: get_u64_def mem_read_write_other)

lemma set_dsk_length:
  "set_dsk_checksum m v = Some m' \<Longrightarrow> length m' = length m"
  "set_dsk_size m v = Some m' \<Longrightarrow> length m' = length m"
  "set_dsk_memsize m v = Some m' \<Longrightarrow> length m' = length m"
  "set_dsk_lsn m w = Some m' \<Longrightarrow> length m' = length m"
  by (simp_all add: hdr_defs mem_write_length)

lemma dsk_get_set_same:
  "set_dsk_checksum m v = Some m' \<Longrightarrow> dsk_checksum m' = Some v"
  "set_dsk_size m v = Some m' \<Longrightarrow> dsk_size m' = Some v"
  "set_dsk_memsize m v = Some m' \<Longrightarrow> dsk_memsize m' = Some v"
  "set_dsk_lsn m w = Some m' \<Longrightarrow> dsk_lsn m' = Some w"
  unfolding dsk_checksum_def dsk_size_def dsk_memsize_def dsk_lsn_def
    set_dsk_checksum_def set_dsk_size_def set_dsk_memsize_def set_dsk_lsn_def
  by (rule get_u32_put_same get_u64_put_same, assumption)+

lemma dsk_size_frame:
  "set_dsk_checksum m v = Some m' \<Longrightarrow> dsk_size m' = dsk_size m"
  "set_dsk_memsize m v = Some m' \<Longrightarrow> dsk_size m' = dsk_size m"
  "set_dsk_lsn m w = Some m' \<Longrightarrow> dsk_size m' = dsk_size m"
  by (simp_all add: hdr_defs mem_read_write_other)

lemma dsk_memsize_frame:
  "set_dsk_checksum m v = Some m' \<Longrightarrow> dsk_memsize m' = dsk_memsize m"
  "set_dsk_size m v = Some m' \<Longrightarrow> dsk_memsize m' = dsk_memsize m"
  "set_dsk_lsn m w = Some m' \<Longrightarrow> dsk_memsize m' = dsk_memsize m"
  by (simp_all add: hdr_defs mem_read_write_other)

lemma dsk_checksum_frame:
  "set_dsk_size m v = Some m' \<Longrightarrow> dsk_checksum m' = dsk_checksum m"
  "set_dsk_memsize m v = Some m' \<Longrightarrow> dsk_checksum m' = dsk_checksum m"
  "set_dsk_lsn m w = Some m' \<Longrightarrow> dsk_checksum m' = dsk_checksum m"
  by (simp_all add: hdr_defs mem_read_write_other)

lemma dsk_lsn_frame:
  "set_dsk_checksum m v = Some m' \<Longrightarrow> dsk_lsn m' = dsk_lsn m"
  "set_dsk_size m v = Some m' \<Longrightarrow> dsk_lsn m' = dsk_lsn m"
  "set_dsk_memsize m v = Some m' \<Longrightarrow> dsk_lsn m' = dsk_lsn m"
  by (simp_all add: hdr_defs mem_read_write_other)

lemma dsk_write_beyond:
  assumes "mem_write m off bs = Some m'" and "20 \<le> off"
  shows "dsk_checksum m' = dsk_checksum m" "dsk_size m' = dsk_size m"
    "dsk_memsize m' = dsk_memsize m" "dsk_lsn m' = dsk_lsn m"
  using assms by (simp_all add: hdr_defs mem_read_write_other)

lemma dsk_take:
  assumes "20 \<le> k"
  shows "dsk_checksum (take k m) = dsk_checksum m" "dsk_size (take k m) = dsk_size m"
    "dsk_memsize (take k m) = dsk_memsize m" "dsk_lsn (take k m) = dsk_lsn m"
  using assms by (simp_all add: hdr_defs mem_read_take)

lemma memcpy_read:
  assumes "memcpy dst src n = Some d" and "off + k \<le> n"
  shows "mem_read d off k = mem_read src off k"
proof -
  from assms(1) obtain bs where bs: "mem_read src 0 n = Some bs" and d: "mem_write dst 0 bs = Some d"
    by (auto simp: memcpy_def split: bind_splits)
  from bs have n: "n \<le> length src" "length bs = n" and nth: "\<And>i. i < n \<Longrightarrow> bs ! i = src ! i"
    by (simp_all add: mem_read_iff)
  from d have len: "length d = length dst" "n \<le> length dst"
    using n by (auto simp: mem_write_def split: if_splits)
  show ?thesis
  proof (rule mem_read_eqI)
    show "off + k \<le> length d" using len assms(2) by simp
    show "off + k \<le> length src" using n assms(2) by simp
    fix i assume "i < k"
    then show "d ! (off + i) = src ! (off + i)"
      using mem_write_nth [OF d, of "off + i"] len n assms(2) nth [of "off + i"] by simp
  qed
qed

lemma memcpy_length: "memcpy dst src n = Some d \<Longrightarrow> length d = length dst"
  by (auto simp: memcpy_def mem_write_length split: bind_splits)

lemma memcpy_drop: "memcpy dst src n = Some d \<Longrightarrow> drop n d = drop n dst"
  by (auto simp: memcpy_def mem_write_def mem_read_def split: bind_splits if_splits)

lemma dsk_memcpy:
  assumes "memcpy dst src n = Some d" and "20 \<le> n"
  shows "dsk_checksum d = dsk_checksum src" "dsk_size d = dsk_size src"
    "dsk_memsize d = dsk_memsize src" "dsk_lsn d = dsk_lsn src"
  using assms by (simp_all add: hdr_defs memcpy_read)

subsection \<open>Reading a block\<close>

lemma disk_read_decompress_cases:
  assumes "disk_read_decompress env s buf = Some (r, s', b')"
  obtains
    (plain) dsize where "dsk_size (buf_mem buf) = Some dsize" "dsk_memsize (buf_mem buf) = Some dsize"
      "r = OK" "s' = s" "b' = buf"
  | (scratch) "r = ScratchFailed" "s' = s" "b' = buf"
  | (codec) "r = DecompressionFailed" "s' = s" "b' = buf"
  | (swapped) dsize dmemsize tm t1 src c out t2 where
      "dsk_size (buf_mem buf) = Some dsize" "dsk_memsize (buf_mem buf) = Some dmemsize"
      "dsize \<noteq> dmemsize" "wt_scr_mem env dmemsize = Some tm"
      "memcpy tm (buf_mem buf) 32 = Some t1"
      "mem_read (buf_mem buf) 32 (unat (buf_size buf - 32)) = Some src"
      "compressor s = Some c" "decompress c src (unat (dmemsize - 32)) = Some out"
      "length out \<le> unat (dmemsize - 32)" "mem_write t1 32 out = Some t2"
      "r = OK" "s' = s" "b' = \<lparr>buf_mem = t2, buf_size = dmemsize\<rparr>"
proof -
  from assms obtain dsize dmemsize where
    ds: "dsk_size (buf_mem buf) = Some dsize" and dm: "dsk_memsize (buf_mem buf) = Some dmemsize"
    and rest: "(if dsize = dmemsize then Some (OK, s, buf)
       else (case wt_scr_alloc env dmemsize of
          None \<Rightarrow> Some (ScratchFailed, s, buf)
        | Some tmp \<Rightarrow> do {
            t1 \<leftarrow> memcpy (buf_mem tmp) (buf_mem buf) (unat COMPRESS_SKIP);
            src \<leftarrow> mem_read (buf_mem buf) (unat COMPRESS_SKIP)
                     (unat (buf_size buf - COMPRESS_SKIP));
            let dst_size = unat (buf_size tmp - COMPRESS_SKIP);
            c \<leftarrow> compressor s;
            case decompress c src dst_size of
              None \<Rightarrow> Some (DecompressionFailed, s, buf)
            | Some out \<Rightarrow>
                if dst_size < length out then None
                else do {
                  t2 \<leftarrow> mem_write t1 (unat COMPRESS_SKIP) out;
                  Some (OK, s, tmp\<lparr>buf_mem := t2\<rparr>)
                }
          })) = Some (r, s', b')"
    unfolding disk_read_decompress_def by (simp split: bind_splits)
  show thesis
  proof (cases "dsize = dmemsize")
    case True
    with rest ds dm show thesis by (intro plain [of dsize]) simp_all
  next
    case ne: False
    show thesis
    proof (cases "wt_scr_mem env dmemsize")
      case None
      with rest ne show thesis by (intro scratch) (simp_all add: wt_scr_alloc_def)
    next
      case (Some tm)
      with rest ne obtain t1 src c where
        t1: "memcpy tm (buf_mem buf) 32 = Some t1"
        and src: "mem_read (buf_mem buf) 32 (unat (buf_size buf - 32)) = Some src"
        and c: "compressor s = Some c"
        and rest2: "(case decompress c src (unat (dmemsize - 32)) of
              None \<Rightarrow> Some (DecompressionFailed, s, buf)
            | Some out \<Rightarrow>
                if unat (dmemsize - 32) < length out then None
                else do {
                  t2 \<leftarrow> mem_write t1 32 out;
                  Some (OK, s, \<lparr>buf_mem = t2, buf_size = dmemsize\<rparr>)
                }) = Some (r, s', b')"
        by (simp add: wt_scr_alloc_def COMPRESS_SKIP_def Let_def
            cong: option.case_cong if_cong split: bind_splits)
      show thesis
      proof (cases "decompress c src (unat (dmemsize - 32))")
        case None
        with rest2 show thesis by (intro codec) simp_all
      next
        case (Some out)
        with rest2 have le: "length out \<le> unat (dmemsize - 32)"
          by (simp split: if_splits)
        with rest2 Some obtain t2 where "mem_write t1 32 out = Some t2"
          and "r = OK" "s' = s" "b' = \<lparr>buf_mem = t2, buf_size = dmemsize\<rparr>"
          by (auto split: bind_splits)
        with ds dm ne \<open>wt_scr_mem env dmemsize = Some tm\<close> t1 src c Some le
        show thesis by (intro swapped)
      qed
    qed
  qed
qed

lemma wt_disk_read_cases:
  assumes "wt_disk_read env s buf addr sz = Some (r, s', b')"
  obtains
    (io) "wt_read env (fh s) (WT_ADDR_TO_OFF s addr) (unat sz) = None"
      "r = IOFailure" "s' = s" "b' = buf"
  | (mismatch) bytes m0 stored m1 blk where
      "wt_read env (fh s) (WT_ADDR_TO_OFF s addr) (unat sz) = Some bytes"
      "mem_write (buf_mem buf) 0 bytes = Some m0" "dsk_checksum m0 = Some stored"
      "set_dsk_checksum m0 0 = Some m1" "mem_read m1 0 (unat sz) = Some blk"
      "stored \<noteq> wt_cksum env blk" "r = ChecksumMismatch" "s' = s" "b' = buf\<lparr>buf_mem := m1\<rparr>"
  | (verified) bytes m0 stored m1 blk where
      "wt_read env (fh s) (WT_ADDR_TO_OFF s addr) (unat sz) = Some bytes"
      "mem_write (buf_mem buf) 0 bytes = Some m0" "dsk_checksum m0 = Some stored"
      "set_dsk_checksum m0 0 = Some m1" "mem_read m1 0 (unat sz) = Some blk"
      "stored = wt_cksum env blk"
      "disk_read_decompress env
         (s\<lparr>page_read := page_read s + 1, block_read := block_read s + 1\<rparr>)
         (buf\<lparr>buf_mem := m1\<rparr>) = Some (r, s', b')"
proof (cases "wt_read env (fh s) (WT_ADDR_TO_OFF s addr) (unat sz)")
  case None
  with assms show thesis by (intro io) (simp_all add: wt_disk_read_def)
next
  case (Some bytes)
  with assms obtain m0 stored m1 blk where
    st: "mem_write (buf_mem buf) 0 bytes = Some m0" "dsk_checksum m0 = Some stored"
      "set_dsk_checksum m0 0 = Some m1" "mem_read m1 0 (unat sz) = Some blk"
    and rest: "(if stored \<noteq> wt_cksum env blk
          then Some (ChecksumMismatch, s, buf\<lparr>buf_mem := m1\<rparr>)
          else disk_read_decompress env
                 (s\<lparr>page_read := page_read s + 1, block_read := block_read s + 1\<rparr>)
                 (buf\<lparr>buf_mem := m1\<rparr>)) = Some (r, s', b')"
    by (simp add: wt_disk_read_def split: bind_splits)
  show thesis
  proof (cases "stored = wt_cksum env blk")
    case True
    with rest Some st show thesis by (intro verified) auto
  next
    case False
    with rest Some st show thesis by (intro mismatch) auto
  qed
qed

lemma disk_read_decompress_ret:
  "disk_read_decompress env s buf = Some (r, s', b') \<Longrightarrow>
     r = OK \<or> r = ScratchFailed \<or> r = DecompressionFailed"
  by (erule disk_read_decompress_cases) simp_all

lemma wt_disk_read_mismatch:
  assumes "wt_read env (fh s) (WT_ADDR_TO_OFF s addr) (unat sz) = Some bytes"
    and "mem_write (buf_mem buf) 0 bytes = Some m0"
    and "dsk_checksum m0 = Some stored"
    and "set_dsk_checksum m0 0 = Some m1"
    and "mem_read m1 0 (unat sz) = Some blk"
    and "stored \<noteq> wt_cksum env blk"
  shows "wt_disk_read env s buf addr sz = Some (ChecksumMismatch, s, buf\<lparr>buf_mem := m1\<rparr>)"
  using assms by (simp add: wt_disk_read_def)

lemma wt_disk_read_verified:
  assumes "wt_read env (fh s) (WT_ADDR_TO_OFF s addr) (unat sz) = Some bytes"
    and "mem_write (buf_mem buf) 0 bytes = Some m0"
    and "dsk_checksum m0 = Some stored"
    and "set_dsk_checksum m0 0 = Some m1"
    and "mem_read m1 0 (unat sz) = Some blk"
    and "stored = wt_cksum env blk"
  shows "wt_disk_read env s buf addr sz =
           disk_read_decompress env
             (s\<lparr>page_read := page_read s + 1, block_read := block_read s + 1\<rparr>)
             (buf\<lparr>buf_mem := m1\<rparr>)"
  using assms by (simp add: wt_disk_read_def)

text \<open>
  C9. After a successful \<^verbatim>\<open>__wt_disk_read\<close> the checksum field in the header of the
  buffer handed back is zero. The field is zeroed at line 48 and never restored;
  on the compressed path the \<^verbatim>\<open>memcpy\<close> of line 71 carries the zeroed header into
  the scratch buffer, and the decompressed bytes land behind it, so the buffer
  that \<^verbatim>\<open>__wt_buf_swap\<close> hands to the caller has the field zero as well.
\<close>

theorem read_ok_checksum_zero:
  assumes "wt_disk_read env s buf addr sz = Some (OK, s', b')"
  shows "dsk_checksum (buf_mem b') = Some 0"
  using assms
proof (cases rule: wt_disk_read_cases)
  case io
  then show ?thesis by simp
next
  case (mismatch bytes m0 stored m1 blk)
  then show ?thesis by simp
next
  case (verified bytes m0 stored m1 blk)
  have m1: "dsk_checksum m1 = Some 0"
    using verified(4) by (rule dsk_get_set_same)
  from verified(7) show ?thesis
  proof (cases rule: disk_read_decompress_cases)
    case (plain dsize)
    then show ?thesis using m1 by simp
  next
    case scratch
    then show ?thesis by simp
  next
    case codec
    then show ?thesis by simp
  next
    case (swapped dsize dmemsize tm t1 src c out t2)
    have "dsk_checksum t2 = dsk_checksum t1"
      using swapped(10) by (rule dsk_write_beyond) simp
    also have "\<dots> = dsk_checksum m1"
      using dsk_memcpy(1) [OF swapped(5)] by simp
    finally show ?thesis using swapped(13) m1 by simp
  qed
qed

theorem read_ok_checksum_zero_witness:
  "\<exists>s' b'. wt_disk_read demo_env packed_session blank_buf 0 512 = Some (OK, s', b') \<and>
     dsk_checksum (buf_mem b') = Some 0"
proof -
  have "map_option fst (wt_disk_read demo_env packed_session blank_buf 0 512) = Some OK"
    by code_simp
  then obtain s' b' where
    r: "wt_disk_read demo_env packed_session blank_buf 0 512 = Some (OK, s', b')"
    by auto
  from read_ok_checksum_zero [OF r] r show ?thesis by blast
qed

text \<open>
  C8. Once the block is in the caller's memory (\<open>m0\<close>), with \<open>stored\<close> the
  checksum field read from it, \<open>m1\<close> the memory after the field is zeroed and
  \<open>blk\<close> its first \<open>sz\<close> bytes: \<^verbatim>\<open>__wt_disk_read\<close> returns the checksum error if
  and only if \<open>stored\<close> differs from the checksum of \<open>blk\<close>. On a mismatch the
  call returns at once: the session (and with it every statistics counter) is as
  it was, the buffer is the caller's own memory holding the block, not a scratch
  buffer swapped in, and the result is the same whatever the compressor is, which
  is never called.
\<close>

theorem read_checksum_mismatch_iff:
  assumes "wt_read env (fh s) (WT_ADDR_TO_OFF s addr) (unat sz) = Some bytes"
    and "mem_write (buf_mem buf) 0 bytes = Some m0"
    and "dsk_checksum m0 = Some stored"
    and "set_dsk_checksum m0 0 = Some m1"
    and "mem_read m1 0 (unat sz) = Some blk"
  shows "((\<exists>s' b'. wt_disk_read env s buf addr sz = Some (ChecksumMismatch, s', b'))
            \<longleftrightarrow> stored \<noteq> wt_cksum env blk) \<and>
         (stored \<noteq> wt_cksum env blk \<longrightarrow>
            (\<forall>c. wt_disk_read env (s\<lparr>compressor := c\<rparr>) buf addr sz =
               Some (ChecksumMismatch, s\<lparr>compressor := c\<rparr>, buf\<lparr>buf_mem := m1\<rparr>)))"
proof (intro conjI iffI impI allI)
  assume "\<exists>s' b'. wt_disk_read env s buf addr sz = Some (ChecksumMismatch, s', b')"
  then obtain s' b' where r: "wt_disk_read env s buf addr sz = Some (ChecksumMismatch, s', b')"
    by blast
  show "stored \<noteq> wt_cksum env blk"
  proof
    assume eq: "stored = wt_cksum env blk"
    have "wt_disk_read env s buf addr sz = disk_read_decompress env
         (s\<lparr>page_read := page_read s + 1, block_read := block_read s + 1\<rparr>)
         (buf\<lparr>buf_mem := m1\<rparr>)"
      using assms eq by (simp add: wt_disk_read_def)
    with r show False using disk_read_decompress_ret by fastforce
  qed
next
  assume "stored \<noteq> wt_cksum env blk"
  then show "\<exists>s' b'. wt_disk_read env s buf addr sz = Some (ChecksumMismatch, s', b')"
    using assms by (simp add: wt_disk_read_def)
next
  fix c
  assume "stored \<noteq> wt_cksum env blk"
  then show "wt_disk_read env (s\<lparr>compressor := c\<rparr>) buf addr sz =
               Some (ChecksumMismatch, s\<lparr>compressor := c\<rparr>, buf\<lparr>buf_mem := m1\<rparr>)"
    using assms by (simp add: wt_disk_read_def WT_ADDR_TO_OFF_def)
qed

theorem read_checksum_mismatch_iff_witness:
  "\<exists>s' b'. wt_disk_read demo_env corrupt_session blank_buf 0 512 =
     Some (ChecksumMismatch, s', b')"
proof -
  have h1: "wt_read demo_env (fh corrupt_session) (WT_ADDR_TO_OFF corrupt_session 0)
      (unat (512 :: u32)) = Some (replicate 512 1)"
    by code_simp
  have h2: "mem_write (buf_mem blank_buf) 0 (replicate 512 1) = Some (replicate 512 1)"
    by code_simp
  have h3: "dsk_checksum (replicate 512 1) = Some 16843009"
    by code_simp
  have h4: "set_dsk_checksum (replicate 512 1) 0 = Some (replicate 4 0 @ replicate 508 1)"
    by code_simp
  have h5: "mem_read (replicate 4 0 @ replicate 508 1) 0 (unat (512 :: u32))
      = Some (replicate 4 0 @ replicate 508 1)"
    by code_simp
  have h6: "(16843009 :: u32) \<noteq> wt_cksum demo_env (replicate 4 0 @ replicate 508 1)"
    by code_simp
  show ?thesis
    using read_checksum_mismatch_iff [OF h1 h2 h3 h4 h5] h6 by blast
qed

text \<open>
  C2, as the specification states it, does not hold: \<^verbatim>\<open>__wt_disk_read\<close> reads the
  block straight into the caller's memory and zeroes the checksum field there
  before it verifies anything. Reading the corrupt block of \<open>corrupt_session\<close> into a
  buffer of zeros fails with the checksum error and leaves the buffer holding the
  block.
\<close>

theorem read_failure_changes_buffer:
  "wt_disk_read demo_env corrupt_session blank_buf 0 512 =
     Some (ChecksumMismatch, corrupt_session,
           blank_buf\<lparr>buf_mem := replicate 4 0 @ replicate 508 1\<rparr>) \<and>
   blank_buf\<lparr>buf_mem := replicate 4 0 @ replicate 508 1\<rparr> \<noteq> blank_buf"
proof
  have h1: "wt_read demo_env (fh corrupt_session) (WT_ADDR_TO_OFF corrupt_session 0)
      (unat (512 :: u32)) = Some (replicate 512 1)"
    by code_simp
  have h2: "mem_write (buf_mem blank_buf) 0 (replicate 512 1) = Some (replicate 512 1)"
    by code_simp
  have h3: "dsk_checksum (replicate 512 1) = Some 16843009"
    by code_simp
  have h4: "set_dsk_checksum (replicate 512 1) 0 = Some (replicate 4 0 @ replicate 508 1)"
    by code_simp
  have h5: "mem_read (replicate 4 0 @ replicate 508 1) 0 (unat (512 :: u32))
      = Some (replicate 4 0 @ replicate 508 1)"
    by code_simp
  have h6: "(16843009 :: u32) \<noteq> wt_cksum demo_env (replicate 4 0 @ replicate 508 1)"
    by code_simp
  show "wt_disk_read demo_env corrupt_session blank_buf 0 512 =
     Some (ChecksumMismatch, corrupt_session,
           blank_buf\<lparr>buf_mem := replicate 4 0 @ replicate 508 1\<rparr>)"
    by (rule wt_disk_read_mismatch [OF h1 h2 h3 h4 h5 h6])
  show "blank_buf\<lparr>buf_mem := replicate 4 0 @ replicate 508 1\<rparr> \<noteq> blank_buf"
    by code_simp
qed

text \<open>
  C2, amended. When \<^verbatim>\<open>__wt_disk_read\<close> returns the checksum error or the error of
  the \<^verbatim>\<open>decompress\<close> callback, no scratch buffer has been swapped in: the caller's
  buffer keeps its \<^verbatim>\<open>size\<close> and its memory, and the memory holds the block that
  was read from the file, with the checksum field of its header zeroed; the bytes
  behind the block are as they were.
\<close>

theorem read_failure_leaves_block_in_buffer:
  assumes "wt_disk_read env s buf addr sz = Some (r, s', b')"
    and "r = ChecksumMismatch \<or> r = DecompressionFailed"
  shows "\<exists>bytes m0. wt_read env (fh s) (WT_ADDR_TO_OFF s addr) (unat sz) = Some bytes \<and>
           mem_write (buf_mem buf) 0 bytes = Some m0 \<and>
           set_dsk_checksum m0 0 = Some (buf_mem b') \<and> buf_size b' = buf_size buf"
  using assms(1)
proof (cases rule: wt_disk_read_cases)
  case io
  then show ?thesis using assms(2) by simp
next
  case (mismatch bytes m0 stored m1 blk)
  then show ?thesis by simp
next
  case (verified bytes m0 stored m1 blk)
  from verified(7) have "b' = buf\<lparr>buf_mem := m1\<rparr>"
    using assms(2) by (cases rule: disk_read_decompress_cases) simp_all
  then show ?thesis using verified by simp
qed

theorem read_failure_leaves_block_in_buffer_witness:
  "\<exists>s' b' bytes m0.
     wt_disk_read demo_env corrupt_session blank_buf 0 512 = Some (ChecksumMismatch, s', b') \<and>
     wt_read demo_env (fh corrupt_session) (WT_ADDR_TO_OFF corrupt_session 0)
       (unat (512 :: u32)) = Some bytes \<and>
     mem_write (buf_mem blank_buf) 0 bytes = Some m0 \<and>
     set_dsk_checksum m0 0 = Some (buf_mem b') \<and> buf_size b' = buf_size blank_buf"
proof -
  have "map_option fst (wt_disk_read demo_env corrupt_session blank_buf 0 512)
      = Some ChecksumMismatch"
    by code_simp
  then obtain s' b' where
    r: "wt_disk_read demo_env corrupt_session blank_buf 0 512 = Some (ChecksumMismatch, s', b')"
    by auto
  from read_failure_leaves_block_in_buffer [OF r] r show ?thesis by blast
qed

subsection \<open>The concrete instance, evaluated\<close>

lemma file_write_total: "file_write f off bs \<noteq> None"
  by (simp add: file_write_def mem_write_def)

lemma demo_write_adopted:
  obtains r where "wt_disk_write demo_env demo_session demo_page = Some r"
    "w_ret r = OK" "w_dsk r = In_tmp" "w_addr r = Some 0" "w_size r = Some 512"
    "wt_read demo_env (fh (w_session r)) (WT_ADDR_TO_OFF (w_session r) 0) (unat (512 :: u32))
       = Some (w_block r)"
proof -
  have "case wt_disk_write demo_env demo_session demo_page of
          None \<Rightarrow> False
        | Some r \<Rightarrow> w_ret r = OK \<and> w_dsk r = In_tmp \<and> w_addr r = Some 0 \<and>
            w_size r = Some 512 \<and>
            wt_read demo_env (fh (w_session r)) (WT_ADDR_TO_OFF (w_session r) 0)
              (unat (512 :: u32)) = Some (w_block r)"
    by code_simp
  then show thesis by (auto split: option.splits intro: that)
qed

lemma demo_write_plain:
  obtains r where "wt_disk_write demo_env plain_session small_page = Some r"
    "w_ret r = OK" "w_dsk r = In_buf"
proof -
  have "case wt_disk_write demo_env plain_session small_page of
          None \<Rightarrow> False
        | Some r \<Rightarrow> w_ret r = OK \<and> w_dsk r = In_buf"
    by code_simp
  then show thesis by (auto split: option.splits intro: that)
qed

lemma demo_page_payload:
  "mem_read (buf_mem demo_page) 32 (unat (buf_size demo_page) - 32) = Some (replicate 568 7)"
  by code_simp

lemma demo_page_compressed:
  "compress run_codec (replicate 568 7) (unat (buf_size demo_page) - 32) = Some [7]"
  by code_simp

subsection \<open>Writing a block\<close>

lemma not_compressed_cases:
  assumes "not_compressed buf tmp A = Some p"
  obtains m1 m2 m3 where
    "memset0 (buf_mem buf) (unat (buf_size buf)) (unat (A - buf_size buf)) = Some m1"
    "set_dsk_memsize m1 A = Some m2" "set_dsk_size m2 A = Some m3"
    "p = \<lparr>p_ret = OK, p_buf = \<lparr>buf_mem = m3, buf_size = A\<rparr>, p_tmp = tmp,
          p_dsk = In_buf, p_align = A\<rparr>"
  using assms unfolding not_compressed_def by (auto split: bind_splits)

lemma not_compressed_simple:
  assumes "not_compressed buf tmp A = Some p"
  shows "p_ret p = OK" "p_dsk p = In_buf" "p_tmp p = tmp" "p_align p = A"
    "buf_size (p_buf p) = A" "length (buf_mem (p_buf p)) = length (buf_mem buf)"
    "dsk_size (buf_mem (p_buf p)) = Some A" "dsk_memsize (buf_mem (p_buf p)) = Some A"
proof -
  from assms obtain m1 m2 m3 where
    m1: "memset0 (buf_mem buf) (unat (buf_size buf)) (unat (A - buf_size buf)) = Some m1"
    and m2: "set_dsk_memsize m1 A = Some m2" and m3: "set_dsk_size m2 A = Some m3"
    and p: "p = \<lparr>p_ret = OK, p_buf = \<lparr>buf_mem = m3, buf_size = A\<rparr>, p_tmp = tmp,
          p_dsk = In_buf, p_align = A\<rparr>"
    by (rule not_compressed_cases)
  show "p_ret p = OK" "p_dsk p = In_buf" "p_tmp p = tmp" "p_align p = A"
    "buf_size (p_buf p) = A"
    by (simp_all add: p)
  have "length m1 = length (buf_mem buf)"
    using m1 by (simp add: memset0_def mem_write_length)
  then show "length (buf_mem (p_buf p)) = length (buf_mem buf)"
    using set_dsk_length(3) [OF m2] set_dsk_length(2) [OF m3] by (simp add: p)
  show "dsk_size (buf_mem (p_buf p)) = Some A"
    using dsk_get_set_same(2) [OF m3] by (simp add: p)
  show "dsk_memsize (buf_mem (p_buf p)) = Some A"
    using dsk_get_set_same(3) [OF m2] dsk_memsize_frame(2) [OF m3] by (simp add: p)
qed

lemma not_compressed_fits:
  assumes nc: "not_compressed buf tmp (WT_ALIGN (buf_size buf) v) = Some p"
    and v: "v \<noteq> 0" and cap: "length (buf_mem buf) < 2 ^ 32"
  shows "round_up (unat (buf_size buf)) (unat v) \<le> length (buf_mem buf)"
    and "unat (WT_ALIGN (buf_size buf) v) = round_up (unat (buf_size buf)) (unat v)"
proof -
  let ?R = "round_up (unat (buf_size buf)) (unat v)"
  from nc obtain m1 where
    "memset0 (buf_mem buf) (unat (buf_size buf))
       (unat (WT_ALIGN (buf_size buf) v - buf_size buf)) = Some m1"
    by (rule not_compressed_cases)
  then have "unat (buf_size buf) + (?R - unat (buf_size buf)) \<le> length (buf_mem buf)"
    by (simp add: memset0_def mem_write_def align_gap [OF v] split: if_splits)
  moreover have "unat (buf_size buf) \<le> ?R"
    using v by (intro round_up_ge) (simp add: unat_gt_0)
  ultimately show le: "?R \<le> length (buf_mem buf)" by simp
  with cap have "?R < 2 ^ 32" by simp
  then show "unat (WT_ALIGN (buf_size buf) v) = ?R"
    by (simp add: unat_WT_ALIGN)
qed

lemma not_compressed_payload:
  assumes nc: "not_compressed buf tmp A = Some p" and "off + k \<le> unat (buf_size buf)"
    and "12 \<le> off"
  shows "mem_read (buf_mem (p_buf p)) off k = mem_read (buf_mem buf) off k"
proof -
  from nc obtain m1 m2 m3 where
    m1: "memset0 (buf_mem buf) (unat (buf_size buf)) (unat (A - buf_size buf)) = Some m1"
    and m2: "set_dsk_memsize m1 A = Some m2" and m3: "set_dsk_size m2 A = Some m3"
    and p: "p = \<lparr>p_ret = OK, p_buf = \<lparr>buf_mem = m3, buf_size = A\<rparr>, p_tmp = tmp,
          p_dsk = In_buf, p_align = A\<rparr>"
    by (rule not_compressed_cases)
  have "mem_read m3 off k = mem_read m2 off k"
    using m3 assms(3) by (simp add: hdr_defs mem_read_write_other)
  also have "\<dots> = mem_read m1 off k"
    using m2 assms(3) by (simp add: hdr_defs mem_read_write_other)
  also have "\<dots> = mem_read (buf_mem buf) off k"
    using m1 assms(2) by (simp add: memset0_def mem_read_write_other)
  finally show ?thesis by (simp add: p)
qed

lemma not_compressed_padding:
  assumes nc: "not_compressed buf tmp A = Some p" and "12 \<le> unat (buf_size buf)"
  shows "mem_read (buf_mem (p_buf p)) (unat (buf_size buf)) (unat (A - buf_size buf)) =
           Some (replicate (unat (A - buf_size buf)) 0)"
proof -
  from nc obtain m1 m2 m3 where
    m1: "memset0 (buf_mem buf) (unat (buf_size buf)) (unat (A - buf_size buf)) = Some m1"
    and m2: "set_dsk_memsize m1 A = Some m2" and m3: "set_dsk_size m2 A = Some m3"
    and p: "p = \<lparr>p_ret = OK, p_buf = \<lparr>buf_mem = m3, buf_size = A\<rparr>, p_tmp = tmp,
          p_dsk = In_buf, p_align = A\<rparr>"
    by (rule not_compressed_cases)
  let ?k = "unat (A - buf_size buf)"
  have "mem_read m3 (unat (buf_size buf)) ?k = mem_read m2 (unat (buf_size buf)) ?k"
    using m3 assms(2) by (simp add: hdr_defs mem_read_write_other)
  also have "\<dots> = mem_read m1 (unat (buf_size buf)) ?k"
    using m2 assms(2) by (simp add: hdr_defs mem_read_write_other)
  also have "\<dots> = Some (replicate ?k 0)"
    using mem_read_write_same [of "buf_mem buf" "unat (buf_size buf)" "replicate ?k 0" m1] m1
    by (simp add: memset0_def)
  finally show ?thesis by (simp add: p)
qed

lemma disk_write_prepare_cases:
  fixes env s buf0
  defines "n \<equiv> buf_size buf0" and "A \<equiv> WT_ALIGN (buf_size buf0) (allocsize s)"
  assumes prep: "disk_write_prepare env s buf0 = Some p"
  obtains
    (no_codec) m1 m2 where
      "set_dsk_memsize (buf_mem buf0) n = Some m1" "set_dsk_size m1 n = Some m2"
      "compressor s = None"
      "not_compressed (buf0\<lparr>buf_mem := m2\<rparr>) None A = Some p"
  | (minimal) m1 m2 c where
      "set_dsk_memsize (buf_mem buf0) n = Some m1" "set_dsk_size m1 n = Some m2"
      "compressor s = Some c" "A = allocsize s"
      "not_compressed (buf0\<lparr>buf_mem := m2\<rparr>) None A = Some p"
  | (scratch) m1 m2 c where
      "set_dsk_memsize (buf_mem buf0) n = Some m1" "set_dsk_size m1 n = Some m2"
      "compressor s = Some c" "A \<noteq> allocsize s" "wt_scr_mem env n = None"
      "p = \<lparr>p_ret = ScratchFailed, p_buf = buf0\<lparr>buf_mem := m2\<rparr>, p_tmp = None,
            p_dsk = In_buf, p_align = A\<rparr>"
  | (declined) m1 m2 c tm src where
      "set_dsk_memsize (buf_mem buf0) n = Some m1" "set_dsk_size m1 n = Some m2"
      "compressor s = Some c" "A \<noteq> allocsize s" "wt_scr_mem env n = Some tm"
      "mem_read m2 32 (unat (n - 32)) = Some src"
      "compress c src (unat (n - 32)) = None"
      "not_compressed (buf0\<lparr>buf_mem := m2\<rparr>) (Some \<lparr>buf_mem = tm, buf_size = n\<rparr>) A = Some p"
  | (useless) m1 m2 c tm src out t1 where
      "set_dsk_memsize (buf_mem buf0) n = Some m1" "set_dsk_size m1 n = Some m2"
      "compressor s = Some c" "A \<noteq> allocsize s" "wt_scr_mem env n = Some tm"
      "mem_read m2 32 (unat (n - 32)) = Some src"
      "compress c src (unat (n - 32)) = Some out" "length out \<le> unat (n - 32)"
      "mem_write tm 32 out = Some t1"
      "A \<le> WT_ALIGN (of_nat (length out) + 32) (allocsize s)"
      "not_compressed (buf0\<lparr>buf_mem := m2\<rparr>)
         (Some \<lparr>buf_mem = t1, buf_size = of_nat (length out) + 32\<rparr>) A = Some p"
  | (adopted) m1 m2 c tm src out t1 t2 t3 t4 where
      "set_dsk_memsize (buf_mem buf0) n = Some m1" "set_dsk_size m1 n = Some m2"
      "compressor s = Some c" "A \<noteq> allocsize s" "wt_scr_mem env n = Some tm"
      "mem_read m2 32 (unat (n - 32)) = Some src"
      "compress c src (unat (n - 32)) = Some out" "length out \<le> unat (n - 32)"
      "mem_write tm 32 out = Some t1"
      "WT_ALIGN (of_nat (length out) + 32) (allocsize s) < A"
      "memcpy t1 m2 32 = Some t2"
      "memset0 t2 (unat (of_nat (length out) + 32 :: u32))
         (unat (WT_ALIGN (of_nat (length out) + 32) (allocsize s) - (of_nat (length out) + 32)))
         = Some t3"
      "set_dsk_size t3 (WT_ALIGN (of_nat (length out) + 32) (allocsize s)) = Some t4"
      "p = \<lparr>p_ret = OK, p_buf = buf0\<lparr>buf_mem := m2\<rparr>,
            p_tmp = Some \<lparr>buf_mem = t4, buf_size = of_nat (length out) + 32\<rparr>,
            p_dsk = In_tmp, p_align = WT_ALIGN (of_nat (length out) + 32) (allocsize s)\<rparr>"
proof -
  from prep obtain m1 m2 where
    m1: "set_dsk_memsize (buf_mem buf0) n = Some m1" and m2: "set_dsk_size m1 n = Some m2"
    and rest: "(case compressor s of
         None \<Rightarrow> not_compressed (buf0\<lparr>buf_mem := m2\<rparr>) None A
       | Some c \<Rightarrow>
           if A = allocsize s then not_compressed (buf0\<lparr>buf_mem := m2\<rparr>) None A
           else
             (case wt_scr_alloc env n of
                None \<Rightarrow> Some \<lparr>p_ret = ScratchFailed, p_buf = buf0\<lparr>buf_mem := m2\<rparr>,
                               p_tmp = None, p_dsk = In_buf, p_align = A\<rparr>
              | Some tmp \<Rightarrow> do {
                  src \<leftarrow> mem_read m2 32 (unat (n - 32));
                  case compress c src (unat (n - 32)) of
                    None \<Rightarrow> not_compressed (buf0\<lparr>buf_mem := m2\<rparr>) (Some tmp) A
                  | Some out \<Rightarrow>
                      if unat (n - 32) < length out then None
                      else do {
                        t1 \<leftarrow> mem_write (buf_mem tmp) 32 out;
                        if WT_ALIGN (of_nat (length out) + 32) (allocsize s) \<ge> A
                        then not_compressed (buf0\<lparr>buf_mem := m2\<rparr>)
                               (Some \<lparr>buf_mem = t1, buf_size = of_nat (length out) + 32\<rparr>) A
                        else do {
                          t2 \<leftarrow> memcpy t1 m2 32;
                          t3 \<leftarrow> memset0 t2 (unat (of_nat (length out) + 32 :: u32))
                                  (unat (WT_ALIGN (of_nat (length out) + 32) (allocsize s)
                                          - (of_nat (length out) + 32)));
                          t4 \<leftarrow> set_dsk_size t3
                                  (WT_ALIGN (of_nat (length out) + 32) (allocsize s));
                          Some \<lparr>p_ret = OK, p_buf = buf0\<lparr>buf_mem := m2\<rparr>,
                                p_tmp = Some \<lparr>buf_mem = t4,
                                  buf_size = of_nat (length out) + 32\<rparr>,
                                p_dsk = In_tmp,
                                p_align = WT_ALIGN (of_nat (length out) + 32) (allocsize s)\<rparr>
                        }
                      }
                })) = Some p"
    unfolding disk_write_prepare_def n_def A_def
    by (simp add: Let_def COMPRESS_SKIP_def
        cong: option.case_cong if_cong Option.bind_cong split: bind_splits if_splits)
  show thesis
  proof (cases "compressor s")
    case None
    with rest m1 m2 show thesis by (intro no_codec) auto
  next
    case (Some c)
    note c = this
    show thesis
    proof (cases "A = allocsize s")
      case True
      with rest m1 m2 c show thesis by (intro minimal) auto
    next
      case ne: False
      show thesis
      proof (cases "wt_scr_mem env n")
        case None
        with rest m1 m2 c ne show thesis
          by (intro scratch) (auto simp: wt_scr_alloc_def)
      next
        case (Some tm)
        note tm = this
        with rest c ne obtain src where
          src: "mem_read m2 32 (unat (n - 32)) = Some src"
          and rest2: "(case compress c src (unat (n - 32)) of
                    None \<Rightarrow> not_compressed (buf0\<lparr>buf_mem := m2\<rparr>)
                              (Some \<lparr>buf_mem = tm, buf_size = n\<rparr>) A
                  | Some out \<Rightarrow>
                      if unat (n - 32) < length out then None
                      else do {
                        t1 \<leftarrow> mem_write tm 32 out;
                        if WT_ALIGN (of_nat (length out) + 32) (allocsize s) \<ge> A
                        then not_compressed (buf0\<lparr>buf_mem := m2\<rparr>)
                               (Some \<lparr>buf_mem = t1, buf_size = of_nat (length out) + 32\<rparr>) A
                        else do {
                          t2 \<leftarrow> memcpy t1 m2 32;
                          t3 \<leftarrow> memset0 t2 (unat (of_nat (length out) + 32 :: u32))
                                  (unat (WT_ALIGN (of_nat (length out) + 32) (allocsize s)
                                          - (of_nat (length out) + 32)));
                          t4 \<leftarrow> set_dsk_size t3
                                  (WT_ALIGN (of_nat (length out) + 32) (allocsize s));
                          Some \<lparr>p_ret = OK, p_buf = buf0\<lparr>buf_mem := m2\<rparr>,
                                p_tmp = Some \<lparr>buf_mem = t4,
                                  buf_size = of_nat (length out) + 32\<rparr>,
                                p_dsk = In_tmp,
                                p_align = WT_ALIGN (of_nat (length out) + 32) (allocsize s)\<rparr>
                        }
                      }) = Some p"
          by (simp add: wt_scr_alloc_def
              cong: option.case_cong if_cong Option.bind_cong split: bind_splits)
        show thesis
        proof (cases "compress c src (unat (n - 32))")
          case None
          with rest2 m1 m2 c ne tm src show thesis by (intro declined) auto
        next
          case (Some out)
          note out = this
          with rest2 have le: "length out \<le> unat (n - 32)"
            by (simp split: if_splits)
          with rest2 out obtain t1 where
            t1: "mem_write tm 32 out = Some t1"
            and rest3: "(if WT_ALIGN (of_nat (length out) + 32) (allocsize s) \<ge> A
                        then not_compressed (buf0\<lparr>buf_mem := m2\<rparr>)
                               (Some \<lparr>buf_mem = t1, buf_size = of_nat (length out) + 32\<rparr>) A
                        else do {
                          t2 \<leftarrow> memcpy t1 m2 32;
                          t3 \<leftarrow> memset0 t2 (unat (of_nat (length out) + 32 :: u32))
                                  (unat (WT_ALIGN (of_nat (length out) + 32) (allocsize s)
                                          - (of_nat (length out) + 32)));
                          t4 \<leftarrow> set_dsk_size t3
                                  (WT_ALIGN (of_nat (length out) + 32) (allocsize s));
                          Some \<lparr>p_ret = OK, p_buf = buf0\<lparr>buf_mem := m2\<rparr>,
                                p_tmp = Some \<lparr>buf_mem = t4,
                                  buf_size = of_nat (length out) + 32\<rparr>,
                                p_dsk = In_tmp,
                                p_align = WT_ALIGN (of_nat (length out) + 32) (allocsize s)\<rparr>
                        }) = Some p"
            by (simp cong: if_cong Option.bind_cong split: bind_splits)
          show thesis
          proof (cases "A \<le> WT_ALIGN (of_nat (length out) + 32) (allocsize s)")
            case True
            with rest3 m1 m2 c ne tm src out le t1 show thesis by (intro useless) auto
          next
            case False
            with rest3 obtain t2 t3 t4 where
              "memcpy t1 m2 32 = Some t2"
              "memset0 t2 (unat (of_nat (length out) + 32 :: u32))
                 (unat (WT_ALIGN (of_nat (length out) + 32) (allocsize s)
                   - (of_nat (length out) + 32))) = Some t3"
              "set_dsk_size t3 (WT_ALIGN (of_nat (length out) + 32) (allocsize s)) = Some t4"
              "p = \<lparr>p_ret = OK, p_buf = buf0\<lparr>buf_mem := m2\<rparr>,
                    p_tmp = Some \<lparr>buf_mem = t4, buf_size = of_nat (length out) + 32\<rparr>,
                    p_dsk = In_tmp,
                    p_align = WT_ALIGN (of_nat (length out) + 32) (allocsize s)\<rparr>"
              by (auto split: bind_splits)
            with False m1 m2 c ne tm src out le t1 show thesis
              by (intro adopted) auto
          qed
        qed
      qed
    qed
  qed
qed

lemma disk_write_finish_cases:
  assumes "disk_write_finish env s p = Some r"
  obtains
    (nospace) "wt_block_alloc env (blocks s) (p_align p) = None"
      "w_ret r = AllocationFailed" "w_session r = s" "w_buf r = p_buf p"
      "w_addr r = None" "w_size r = None" "w_dsk r = p_dsk p" "w_block r = []"
  | (stamped) addr bl d0 d1 d2 blk d3 where
      "wt_block_alloc env (blocks s) (p_align p) = Some (addr, bl)"
      "dsk_deref p = Some d0" "set_dsk_lsn d0 (WT_LSN_INCR (lsn s)) = Some d1"
      "set_dsk_checksum d1 0 = Some d2" "mem_read d2 0 (unat (p_align p)) = Some blk"
      "set_dsk_checksum d2 (wt_cksum env blk) = Some d3"
      "mem_read d3 0 (unat (p_align p)) = Some (w_block r)"
      "w_buf r = p_buf (dsk_store p d3)" "w_dsk r = p_dsk p"
      "lsn (w_session r) = WT_LSN_INCR (lsn s)" "allocsize (w_session r) = allocsize s"
      "compressor (w_session r) = compressor s" "blocks (w_session r) = bl"
      "page_read (w_session r) = page_read s" "block_read (w_session r) = block_read s"
      "(w_ret r = IOFailure \<and> w_addr r = None \<and> w_size r = None \<and>
          wt_write env (fh s) (unat addr * unat (allocsize s)) (w_block r) = None \<and>
          fh (w_session r) = fh s \<and> page_write (w_session r) = page_write s \<and>
          block_write (w_session r) = block_write s) \<or>
       (w_ret r = OK \<and> w_addr r = Some addr \<and> w_size r = Some (p_align p) \<and>
          wt_write env (fh s) (unat addr * unat (allocsize s)) (w_block r)
            = Some (fh (w_session r)) \<and>
          page_write (w_session r) = page_write s + 1 \<and>
          block_write (w_session r) = block_write s + 1)"
proof (cases "wt_block_alloc env (blocks s) (p_align p)")
  case None
  with assms show thesis by (intro nospace) (auto simp: disk_write_finish_def)
next
  case (Some ab)
  obtain addr bl where ab: "ab = (addr, bl)" by (cases ab)
  from assms Some ab obtain d0 d1 d2 blk d3 block where
    st: "dsk_deref p = Some d0" "set_dsk_lsn d0 (WT_LSN_INCR (lsn s)) = Some d1"
      "set_dsk_checksum d1 0 = Some d2" "mem_read d2 0 (unat (p_align p)) = Some blk"
      "set_dsk_checksum d2 (wt_cksum env blk) = Some d3"
      "mem_read d3 0 (unat (p_align p)) = Some block"
    and rest: "(case wt_write env (fh s) (unat addr * unat (allocsize s)) block of
            None \<Rightarrow> Some \<lparr>w_ret = IOFailure,
                           w_session = s\<lparr>blocks := bl, lsn := WT_LSN_INCR (lsn s)\<rparr>,
                           w_buf = p_buf (dsk_store p d3),
                           w_addr = None, w_size = None, w_dsk = p_dsk p, w_block = block\<rparr>
          | Some f \<Rightarrow>
              Some \<lparr>w_ret = OK,
                    w_session = s\<lparr>blocks := bl, lsn := WT_LSN_INCR (lsn s), fh := f,
                      page_write := page_write s + 1, block_write := block_write s + 1\<rparr>,
                    w_buf = p_buf (dsk_store p d3), w_addr = Some addr,
                    w_size = Some (p_align p), w_dsk = p_dsk p, w_block = block\<rparr>) = Some r"
    by (simp add: disk_write_finish_def Let_def WT_ADDR_TO_OFF_def
        cong: option.case_cong split: bind_splits)
  show thesis
  proof (cases "wt_write env (fh s) (unat addr * unat (allocsize s)) block")
    case None
    with rest st Some ab show thesis by (intro stamped [of addr bl d0 d1 d2 blk d3]) auto
  next
    case (Some f)
    with rest st \<open>wt_block_alloc env (blocks s) (p_align p) = Some ab\<close> ab show thesis
      by (intro stamped [of addr bl d0 d1 d2 blk d3]) auto
  qed
qed

lemma wt_disk_write_ok:
  assumes "wt_disk_write env s buf = Some r" and "w_ret r = OK"
  obtains p where "disk_write_prepare env s buf = Some p" "p_ret p = OK"
    "disk_write_finish env s p = Some r"
  using assms unfolding wt_disk_write_def by (auto split: bind_splits if_splits)

lemma mem_write_overwrite:
  assumes "mem_write m off bs = Some m'" and "length bs' = length bs"
  shows "mem_write m' off bs' = mem_write m off bs'"
  using assms by (auto simp: mem_write_def split: if_splits)

lemma mem_write_take_commute:
  assumes w: "mem_write m off bs = Some m'" and "off + length bs \<le> k" and "k \<le> length m"
  shows "mem_write (take k m) off bs = Some (take k m')"
proof -
  have len: "length m' = length m" using w by (rule mem_write_length)
  obtain x where x: "mem_write (take k m) off bs = Some x"
    using assms(2,3) by (auto simp: mem_write_def)
  have lx: "length x = k" using mem_write_length [OF x] assms(3) by simp
  have "x = take k m'"
  proof (rule nth_equalityI)
    show "length x = length (take k m')" using lx len assms(3) by simp
    fix i assume "i < length x"
    then have i: "i < k" using lx by simp
    then show "x ! i = take k m' ! i"
      using mem_write_nth [OF x, of i] mem_write_nth [OF w, of i] assms(3) by simp
  qed
  with x show ?thesis by simp
qed

lemma mem_read_append:
  assumes "mem_read m off a = Some xs" and "mem_read m (off + a) b = Some ys"
  shows "mem_read m off (a + b) = Some (xs @ ys)"
  using assms by (auto simp: mem_read_def take_add add.commute split: if_splits)

lemma stamp_facts:
  assumes l: "set_dsk_lsn d0 l = Some d1" and c0: "set_dsk_checksum d1 0 = Some d2"
    and b: "mem_read d2 0 k = Some blk" and c: "set_dsk_checksum d2 c = Some d3"
    and bl: "mem_read d3 0 k = Some block" and k: "20 \<le> k"
  shows "dsk_size block = dsk_size d0" "dsk_memsize block = dsk_memsize d0"
    "dsk_lsn block = Some l" "dsk_checksum block = Some c"
    "length block = k" "length d3 = length d0" "k \<le> length d0"
    "set_dsk_checksum block 0 = Some blk"
    "\<And>off n. 20 \<le> off \<Longrightarrow> mem_read block off n = mem_read (take k d0) off n"
    "\<And>off n. 20 \<le> off \<Longrightarrow> mem_read d3 off n = mem_read d0 off n"
proof -
  have block: "block = take k d3" and kd3: "k \<le> length d3"
    using mem_read_zero [OF bl] by simp_all
  have blk: "blk = take k d2" using mem_read_zero [OF b] by simp
  show len: "length d3 = length d0"
    using set_dsk_length(4) [OF l] set_dsk_length(1) [OF c0] set_dsk_length(1) [OF c] by simp
  show "k \<le> length d0" using kd3 len by simp
  show "length block = k" using block kd3 by simp
  show "dsk_size block = dsk_size d0"
    using dsk_take(2) [OF k, of d3] dsk_size_frame(1) [OF c] dsk_size_frame(1) [OF c0]
      dsk_size_frame(3) [OF l] by (simp add: block)
  show "dsk_memsize block = dsk_memsize d0"
    using dsk_take(3) [OF k, of d3] dsk_memsize_frame(1) [OF c] dsk_memsize_frame(1) [OF c0]
      dsk_memsize_frame(3) [OF l] by (simp add: block)
  show "dsk_lsn block = Some l"
    using dsk_take(4) [OF k, of d3] dsk_lsn_frame(1) [OF c] dsk_lsn_frame(1) [OF c0]
      dsk_get_set_same(4) [OF l] by (simp add: block)
  show "dsk_checksum block = Some c"
    using dsk_take(1) [OF k, of d3] dsk_get_set_same(1) [OF c] by (simp add: block)
  have w3: "mem_write d2 0 (le_bytes 4 c) = Some d3"
    using c by (simp add: hdr_defs)
  have w2: "mem_write d1 0 (le_bytes 4 (0 :: u32)) = Some d2"
    using c0 by (simp add: hdr_defs)
  have "mem_write d3 0 (le_bytes 4 (0 :: u32)) = mem_write d2 0 (le_bytes 4 (0 :: u32))"
    by (rule mem_write_overwrite [OF w3]) simp
  also have "\<dots> = mem_write d1 0 (le_bytes 4 (0 :: u32))"
    by (rule mem_write_overwrite [OF w2]) simp
  finally have z: "mem_write d3 0 (le_bytes 4 (0 :: u32)) = Some d2" using w2 by simp
  have "mem_write (take k d3) 0 (le_bytes 4 (0 :: u32)) = Some (take k d2)"
    using mem_write_take_commute [OF z _ kd3] k by simp
  then show "set_dsk_checksum block 0 = Some blk"
    by (simp add: hdr_defs block blk)
  {
    fix off n :: nat
    assume off: "20 \<le> off"
    have "mem_read d3 off n = mem_read d2 off n"
      using c off by (simp add: hdr_defs mem_read_write_other)
    also have "\<dots> = mem_read d1 off n"
      using c0 off by (simp add: hdr_defs mem_read_write_other)
    also have "\<dots> = mem_read d0 off n"
      using l off by (simp add: hdr_defs mem_read_write_other)
    finally show "mem_read d3 off n = mem_read d0 off n" .
  }
  note frame = this
  {
    fix off n :: nat
    assume off: "20 \<le> off"
    show "mem_read block off n = mem_read (take k d0) off n"
    proof (cases "off + n \<le> k")
      case True
      then show ?thesis using frame [OF off, of n] by (simp add: block mem_read_take)
    next
      case False
      then show ?thesis using kd3 len by (simp add: block mem_read_def)
    qed
  }
qed

lemma src_bounds:
  assumes "mem_read m 32 (unat (n - 32 :: u32)) = Some src" and "length m < 2 ^ 32"
  shows "32 \<le> unat n" and "unat (n - 32) = unat n - 32"
proof -
  have le: "32 + unat (n - 32) \<le> length m"
    using assms(1) by (simp add: mem_read_def split: if_splits)
  have sub: "unat (n - 32) = (if 32 \<le> unat n then unat n - 32 else unat n + 2 ^ 32 - 32)"
    using unat_sub_if_size [of n 32] by (simp add: word_size)
  show "32 \<le> unat n"
  proof (rule ccontr)
    assume "\<not> 32 \<le> unat n"
    with sub have "unat (n - 32) = unat n + 2 ^ 32 - 32" by simp
    with le assms(2) show False by simp
  qed
  with sub show "unat (n - 32) = unat n - 32" by simp
qed

lemma adopted_arith:
  fixes n v :: u32 and L :: nat
  defines "T \<equiv> L + 32" and "V \<equiv> unat v"
  assumes v: "v \<noteq> 0" and n32: "32 \<le> unat n" and L: "L \<le> unat n - 32"
    and lt: "WT_ALIGN (of_nat L + 32) v < WT_ALIGN n v"
  shows "unat (of_nat L + 32 :: u32) = T"
    and "unat (WT_ALIGN (of_nat L + 32) v) = round_up T V"
    and "unat (WT_ALIGN n v) = round_up (unat n) V"
    and "round_up T V < round_up (unat n) V"
    and "round_up T V < unat n"
proof -
  let ?N = "unat n"
  let ?R = "round_up ?N V"
  let ?R' = "round_up T V"
  have V: "0 < V" using v by (simp add: V_def unat_gt_0)
  have N: "?N < 2 ^ 32" using unsigned_less [of n] by simp
  have V32: "V < 2 ^ 32" using unsigned_less [of v] by (simp add: V_def)
  have TN: "T \<le> ?N" using n32 L by (simp add: T_def)
  have T0: "0 < T" by (simp add: T_def)
  have "(of_nat L + 32 :: u32) = of_nat T" by (simp add: T_def)
  then show T: "unat (of_nat L + 32 :: u32) = T"
    using TN N by (simp add: unat_of_nat)
  have mono: "?R' \<le> ?R" using TN by (rule round_up_mono)
  have Rlt: "?R < ?N + V" using V by (rule round_up_less)
  have VR': "V \<le> ?R'" using V T0 by (rule round_up_ge_unit)
  have A: "unat (WT_ALIGN n v) = ?R mod 2 ^ 32" by (simp add: unat_WT_ALIGN V_def)
  have A': "unat (WT_ALIGN (of_nat L + 32) v) = ?R' mod 2 ^ 32"
    by (simp only: unat_WT_ALIGN T V_def)
  from lt have lt': "?R' mod 2 ^ 32 < ?R mod 2 ^ 32"
    by (simp only: word_less_nat_alt A A')
  have R: "?R < 2 ^ 32"
  proof (rule ccontr)
    assume "\<not> ?R < 2 ^ 32"
    then have ge: "2 ^ 32 \<le> ?R" by simp
    have "?R - 2 ^ 32 < 2 ^ 32" using Rlt N V32 by simp
    then have Rmod: "?R mod 2 ^ 32 = ?R - 2 ^ 32"
      using ge by (simp add: le_mod_geq)
    show False
    proof (cases "?R' < 2 ^ 32")
      case True
      then have "?R' mod 2 ^ 32 = ?R'" by simp
      with lt' Rmod have "?R' < ?R - 2 ^ 32" by simp
      moreover have "?R - 2 ^ 32 < V" using Rlt N V by simp
      ultimately show False using VR' by simp
    next
      case False
      then have "?R < ?R' + V" using Rlt N by simp
      with mono have "?R' = ?R"
        by (intro round_up_multiples [of V]) (simp_all add: round_up_dvd)
      with lt' show False by simp
    qed
  qed
  with mono have R': "?R' < 2 ^ 32" by simp
  show "unat (WT_ALIGN (of_nat L + 32) v) = ?R'" using A' R' by simp
  show "unat (WT_ALIGN n v) = ?R" using A R by simp
  show less: "?R' < ?R" using lt' R R' by simp
  have "V dvd ?R - ?R'" by (intro dvd_diff_nat round_up_dvd)
  moreover have "0 < ?R - ?R'" using less by simp
  ultimately have "V \<le> ?R - ?R'" by (rule dvd_imp_le)
  with Rlt less show "?R' < ?N" by simp
qed

lemma header_set_read:
  assumes "set_dsk_memsize m n = Some m1" and "set_dsk_size m1 n' = Some m2" and "12 \<le> off"
  shows "mem_read m2 off k = mem_read m off k"
proof -
  have "mem_read m2 off k = mem_read m1 off k"
    using assms(2,3) by (simp add: hdr_defs mem_read_write_other)
  also have "\<dots> = mem_read m off k"
    using assms(1,3) by (simp add: hdr_defs mem_read_write_other)
  finally show ?thesis .
qed

lemma header_set_fields:
  assumes "set_dsk_memsize m n = Some m1" and "set_dsk_size m1 n' = Some m2"
  shows "length m2 = length m" "dsk_size m2 = Some n'" "dsk_memsize m2 = Some n"
    "dsk_checksum m2 = dsk_checksum m" "dsk_lsn m2 = dsk_lsn m"
    "take 4 m2 = take 4 m" "drop 12 m2 = drop 12 m"
proof -
  show "length m2 = length m"
    using set_dsk_length(3) [OF assms(1)] set_dsk_length(2) [OF assms(2)] by simp
  show "dsk_size m2 = Some n'" using assms(2) by (rule dsk_get_set_same)
  show "dsk_memsize m2 = Some n"
    using dsk_get_set_same(3) [OF assms(1)] dsk_memsize_frame(2) [OF assms(2)] by simp
  show "dsk_checksum m2 = dsk_checksum m"
    using dsk_checksum_frame(2) [OF assms(1)] dsk_checksum_frame(1) [OF assms(2)] by simp
  show "dsk_lsn m2 = dsk_lsn m"
    using dsk_lsn_frame(3) [OF assms(1)] dsk_lsn_frame(2) [OF assms(2)] by simp
  have w1: "mem_write m 8 (le_bytes 4 n) = Some m1" using assms(1) by (simp add: hdr_defs)
  have w2: "mem_write m1 4 (le_bytes 4 n') = Some m2" using assms(2) by (simp add: hdr_defs)
  show "take 4 m2 = take 4 m"
    using mem_write_take [OF w1, of 4] mem_write_take [OF w2, of 4] by simp
  show "drop 12 m2 = drop 12 m"
    using mem_write_drop [OF w1, of 12] mem_write_drop [OF w2, of 12] by simp
qed

text \<open>What the adopted scratch buffer holds at line 210.\<close>

lemma adopted_tmp:
  fixes ts A' :: u32
  assumes t1: "mem_write tm 32 out = Some t1" and t2: "memcpy t1 m2 32 = Some t2"
    and t3: "memset0 t2 (unat ts) k = Some t3" and t4: "set_dsk_size t3 A' = Some t4"
    and ts: "unat ts = length out + 32"
  shows "dsk_size t4 = Some A'" "dsk_memsize t4 = dsk_memsize m2"
    "dsk_checksum t4 = dsk_checksum m2" "dsk_lsn t4 = dsk_lsn m2"
    "mem_read t4 32 (length out + k) = Some (out @ replicate k 0)"
    "length out + 32 + k \<le> length t4"
proof -
  have w3: "mem_write t2 (length out + 32) (replicate k 0) = Some t3"
    using t3 ts by (simp add: memset0_def)
  show "dsk_size t4 = Some A'" using t4 by (rule dsk_get_set_same)
  show "dsk_memsize t4 = dsk_memsize m2"
    using dsk_memsize_frame(2) [OF t4] dsk_write_beyond(3) [OF w3] dsk_memcpy(3) [OF t2]
    by simp
  show "dsk_checksum t4 = dsk_checksum m2"
    using dsk_checksum_frame(1) [OF t4] dsk_write_beyond(1) [OF w3] dsk_memcpy(1) [OF t2]
    by simp
  show "dsk_lsn t4 = dsk_lsn m2"
    using dsk_lsn_frame(2) [OF t4] dsk_write_beyond(4) [OF w3] dsk_memcpy(4) [OF t2]
    by simp
  have len: "length t4 = length t2"
    using set_dsk_length(2) [OF t4] mem_write_length [OF w3] by simp
  show "length out + 32 + k \<le> length t4"
    using w3 len by (simp add: mem_write_def split: if_splits)
  have a: "mem_read t1 32 (length out) = Some out"
    using t1 by (rule mem_read_write_same)
  have "drop 32 t2 = drop 32 t1" using t2 by (rule memcpy_drop)
  then have "mem_read t2 32 (length out) = mem_read t1 32 (length out)"
    using memcpy_length [OF t2] by (simp add: mem_read_def)
  then have b: "mem_read t3 32 (length out) = Some out"
    using mem_read_write_other [OF w3, of 32 "length out"] a by simp
  have c: "mem_read t3 (32 + length out) k = Some (replicate k 0)"
    using mem_read_write_same [OF w3] by (simp add: add.commute)
  have "mem_read t3 32 (length out + k) = Some (out @ replicate k 0)"
    using b c by (rule mem_read_append)
  moreover have "mem_read t4 32 (length out + k) = mem_read t3 32 (length out + k)"
    using t4 by (simp add: hdr_defs mem_read_write_other)
  ultimately show "mem_read t4 32 (length out + k) = Some (out @ replicate k 0)" by simp
qed

lemma finish_ok:
  assumes "disk_write_finish env s p = Some r" and "w_ret r = OK"
  obtains addr bl d0 d1 d2 blk d3 where
      "wt_block_alloc env (blocks s) (p_align p) = Some (addr, bl)"
      "dsk_deref p = Some d0" "set_dsk_lsn d0 (WT_LSN_INCR (lsn s)) = Some d1"
      "set_dsk_checksum d1 0 = Some d2" "mem_read d2 0 (unat (p_align p)) = Some blk"
      "set_dsk_checksum d2 (wt_cksum env blk) = Some d3"
      "mem_read d3 0 (unat (p_align p)) = Some (w_block r)"
      "w_buf r = p_buf (dsk_store p d3)" "w_dsk r = p_dsk p"
      "lsn (w_session r) = WT_LSN_INCR (lsn s)" "allocsize (w_session r) = allocsize s"
      "compressor (w_session r) = compressor s"
      "w_addr r = Some addr" "w_size r = Some (p_align p)"
      "wt_write env (fh s) (unat addr * unat (allocsize s)) (w_block r)
         = Some (fh (w_session r))"
  using assms(1)
proof (cases rule: disk_write_finish_cases)
  case nospace
  with assms(2) show ?thesis by simp
next
  case (stamped addr bl d0 d1 d2 blk d3)
  with assms(2) show ?thesis by (intro that [of addr bl d0 d1 d2 blk d3]) auto
qed

lemma plain_outcome:
  assumes m1: "set_dsk_memsize (buf_mem buf) (buf_size buf) = Some m1"
    and m2: "set_dsk_size m1 (buf_size buf) = Some m2"
    and nc: "not_compressed (buf\<lparr>buf_mem := m2\<rparr>) tmp
               (WT_ALIGN (buf_size buf) (allocsize s)) = Some p"
    and fin: "disk_write_finish env s p = Some r" and ok: "w_ret r = OK"
    and v: "allocsize s \<noteq> 0" and cap: "length (buf_mem buf) < 2 ^ 32"
  shows "w_dsk r = In_buf"
    and "w_size r = Some (WT_ALIGN (buf_size buf) (allocsize s))"
    and "unat (WT_ALIGN (buf_size buf) (allocsize s))
           = round_up (unat (buf_size buf)) (unat (allocsize s))"
    and "round_up (unat (buf_size buf)) (unat (allocsize s)) \<le> length (buf_mem buf)"
    and "20 \<le> unat (buf_size buf) \<Longrightarrow>
           dsk_size (w_block r) = Some (WT_ALIGN (buf_size buf) (allocsize s)) \<and>
           dsk_memsize (w_block r) = Some (WT_ALIGN (buf_size buf) (allocsize s)) \<and>
           dsk_lsn (w_block r) = Some (WT_LSN_INCR (lsn s))"
proof -
  let ?A = "WT_ALIGN (buf_size buf) (allocsize s)"
  let ?b = "buf\<lparr>buf_mem := m2\<rparr>"
  have len: "length m2 = length (buf_mem buf)" using m1 m2 by (rule header_set_fields)
  have nc': "not_compressed ?b tmp (WT_ALIGN (buf_size ?b) (allocsize s)) = Some p"
    using nc by simp
  have cap': "length (buf_mem ?b) < 2 ^ 32" using cap len by simp
  note simple = not_compressed_simple [OF nc]
  from fin ok obtain addr bl d0 d1 d2 blk d3 where
    st: "dsk_deref p = Some d0" "set_dsk_lsn d0 (WT_LSN_INCR (lsn s)) = Some d1"
      "set_dsk_checksum d1 0 = Some d2" "mem_read d2 0 (unat (p_align p)) = Some blk"
      "set_dsk_checksum d2 (wt_cksum env blk) = Some d3"
      "mem_read d3 0 (unat (p_align p)) = Some (w_block r)"
    and r: "w_dsk r = p_dsk p" "w_size r = Some (p_align p)"
    by (rule finish_ok)
  show "w_dsk r = In_buf" using r simple by simp
  show "w_size r = Some ?A" using r simple by simp
  show A: "unat ?A = round_up (unat (buf_size buf)) (unat (allocsize s))"
    using not_compressed_fits(2) [OF nc' v cap'] by simp
  show "round_up (unat (buf_size buf)) (unat (allocsize s)) \<le> length (buf_mem buf)"
    using not_compressed_fits(1) [OF nc' v cap'] len by simp
  {
    assume n: "20 \<le> unat (buf_size buf)"
    have "unat (buf_size buf) \<le> round_up (unat (buf_size buf)) (unat (allocsize s))"
      using v by (intro round_up_ge) (simp add: unat_gt_0)
    with n A have k: "20 \<le> unat (p_align p)" using simple by simp
    have d0: "d0 = buf_mem (p_buf p)" using st(1) simple by (simp add: dsk_deref_def)
    note sf = stamp_facts [OF st(2) st(3) st(4) st(5) st(6) k]
    show "dsk_size (w_block r) = Some ?A \<and> dsk_memsize (w_block r) = Some ?A \<and>
           dsk_lsn (w_block r) = Some (WT_LSN_INCR (lsn s))"
      using sf(1,2,3) simple d0 by simp
  }
qed

lemma adopted_outcome:
  fixes buf :: WT_BUF and s :: "('f, 'a) WT_SESSION_IMPL"
  defines "n \<equiv> buf_size buf" and "A \<equiv> WT_ALIGN (buf_size buf) (allocsize s)"
  defines "A' \<equiv> \<lambda>out :: u8 list. WT_ALIGN (of_nat (length out) + 32) (allocsize s)"
  assumes m1: "set_dsk_memsize (buf_mem buf) n = Some m1"
    and m2: "set_dsk_size m1 n = Some m2"
    and src: "mem_read m2 32 (unat (n - 32)) = Some src"
    and le: "length out \<le> unat (n - 32)"
    and t1: "mem_write tm 32 out = Some t1"
    and lt: "A' out < A"
    and t2: "memcpy t1 m2 32 = Some t2"
    and t3: "memset0 t2 (unat (of_nat (length out) + 32 :: u32))
               (unat (A' out - (of_nat (length out) + 32))) = Some t3"
    and t4: "set_dsk_size t3 (A' out) = Some t4"
    and p: "p = \<lparr>p_ret = OK, p_buf = buf\<lparr>buf_mem := m2\<rparr>,
            p_tmp = Some \<lparr>buf_mem = t4, buf_size = of_nat (length out) + 32\<rparr>,
            p_dsk = In_tmp, p_align = A' out\<rparr>"
    and fin: "disk_write_finish env s p = Some r" and ok: "w_ret r = OK"
    and v: "allocsize s \<noteq> 0" and cap: "length (buf_mem buf) < 2 ^ 32"
  shows "w_dsk r = In_tmp" and "w_size r = Some (A' out)"
    and "w_buf r = buf\<lparr>buf_mem := m2\<rparr>"
    and "32 \<le> unat n" and "unat (n - 32) = unat n - 32"
    and "mem_read (buf_mem buf) 32 (unat n - 32) = Some src"
    and "unat (A' out) = round_up (length out + 32) (unat (allocsize s))"
    and "unat A = round_up (unat n) (unat (allocsize s))"
    and "round_up (length out + 32) (unat (allocsize s)) < round_up (unat n) (unat (allocsize s))"
    and "round_up (length out + 32) (unat (allocsize s)) < unat n"
    and "dsk_size (w_block r) = Some (A' out)" and "dsk_memsize (w_block r) = Some n"
    and "dsk_lsn (w_block r) = Some (WT_LSN_INCR (lsn s))"
    and "mem_read (w_block r) 32 (unat (A' out) - 32) =
           Some (out @ replicate (unat (A' out) - 32 - length out) 0)"
proof -
  let ?V = "unat (allocsize s)"
  have len: "length m2 = length (buf_mem buf)" using m1 m2 by (rule header_set_fields)
  have sb: "32 \<le> unat n" "unat (n - 32) = unat n - 32"
    using src_bounds [OF src] cap len by simp_all
  show "32 \<le> unat n" "unat (n - 32) = unat n - 32" by (fact sb)+
  show "mem_read (buf_mem buf) 32 (unat n - 32) = Some src"
    using header_set_read [OF m1 m2, of 32 "unat n - 32"] src sb by simp
  have L: "length out \<le> unat n - 32" using le sb by simp
  have lt': "WT_ALIGN (of_nat (length out) + 32) (allocsize s) < WT_ALIGN n (allocsize s)"
    using lt by (simp add: A'_def A_def n_def)
  note ar = adopted_arith [OF v sb(1) L lt']
  show R': "unat (A' out) = round_up (length out + 32) ?V" using ar(2) by (simp add: A'_def)
  show "unat A = round_up (unat n) ?V" using ar(3) by (simp add: A_def n_def)
  show "round_up (length out + 32) ?V < round_up (unat n) ?V" by (rule ar(4))
  show "round_up (length out + 32) ?V < unat n" by (rule ar(5))
  from fin ok obtain addr bl d0 d1 d2 blk d3 where
    st: "dsk_deref p = Some d0" "set_dsk_lsn d0 (WT_LSN_INCR (lsn s)) = Some d1"
      "set_dsk_checksum d1 0 = Some d2" "mem_read d2 0 (unat (p_align p)) = Some blk"
      "set_dsk_checksum d2 (wt_cksum env blk) = Some d3"
      "mem_read d3 0 (unat (p_align p)) = Some (w_block r)"
    and r: "w_dsk r = p_dsk p" "w_size r = Some (p_align p)"
      "w_buf r = p_buf (dsk_store p d3)"
    by (rule finish_ok)
  show "w_dsk r = In_tmp" using r by (simp add: p)
  show "w_size r = Some (A' out)" using r by (simp add: p)
  show "w_buf r = buf\<lparr>buf_mem := m2\<rparr>" using r by (simp add: p dsk_store_def)
  have d0: "d0 = t4" using st(1) by (simp add: p dsk_deref_def)
  have gap: "unat (A' out - (of_nat (length out) + 32)) = unat (A' out) - (length out + 32)"
    using align_gap [OF v, of "of_nat (length out) + 32"] ar(1) R' by (simp add: A'_def)
  have ge: "length out + 32 \<le> unat (A' out)"
    using round_up_ge [of ?V "length out + 32"] v R' by (simp add: unat_gt_0)
  note tmp = adopted_tmp [OF t1 t2 t3 t4 ar(1)]
  have k: "20 \<le> unat (p_align p)" using ge by (simp add: p)
  note sf = stamp_facts [OF st(2) st(3) st(4) st(5) st(6) k]
  show "dsk_size (w_block r) = Some (A' out)" using sf(1) tmp(1) d0 by simp
  show "dsk_memsize (w_block r) = Some n"
    using sf(2) tmp(2) d0 header_set_fields(3) [OF m1 m2] by simp
  show "dsk_lsn (w_block r) = Some (WT_LSN_INCR (lsn s))" by (rule sf(3))
  have eq: "length out + (unat (A' out) - (length out + 32)) = unat (A' out) - 32"
    using ge by simp
  have "mem_read (w_block r) 32 (unat (A' out) - 32)
      = mem_read (take (unat (A' out)) t4) 32 (unat (A' out) - 32)"
    using sf(9) [of 32 "unat (A' out) - 32"] d0 by (simp add: p)
  also have "\<dots> = mem_read t4 32 (unat (A' out) - 32)"
    using ge by (intro mem_read_take) simp
  also have "\<dots> = Some (out @ replicate (unat (A' out) - (length out + 32)) 0)"
    using tmp(5) gap eq by simp
  finally show "mem_read (w_block r) 32 (unat (A' out) - 32) =
           Some (out @ replicate (unat (A' out) - 32 - length out) 0)"
    by (simp add: diff_diff_left add.commute)
qed

lemma disk_write_prepare_ok_cases:
  assumes prep: "disk_write_prepare env s buf = Some p" and ok: "p_ret p = OK"
  obtains
    (plain) m1 m2 tmp where
      "set_dsk_memsize (buf_mem buf) (buf_size buf) = Some m1"
      "set_dsk_size m1 (buf_size buf) = Some m2"
      "not_compressed (buf\<lparr>buf_mem := m2\<rparr>) tmp
         (WT_ALIGN (buf_size buf) (allocsize s)) = Some p"
  | (adopted) m1 m2 c tm src out t1 t2 t3 t4 where
      "set_dsk_memsize (buf_mem buf) (buf_size buf) = Some m1"
      "set_dsk_size m1 (buf_size buf) = Some m2"
      "compressor s = Some c" "wt_scr_mem env (buf_size buf) = Some tm"
      "mem_read m2 32 (unat (buf_size buf - 32)) = Some src"
      "compress c src (unat (buf_size buf - 32)) = Some out"
      "length out \<le> unat (buf_size buf - 32)"
      "mem_write tm 32 out = Some t1"
      "WT_ALIGN (of_nat (length out) + 32) (allocsize s)
         < WT_ALIGN (buf_size buf) (allocsize s)"
      "memcpy t1 m2 32 = Some t2"
      "memset0 t2 (unat (of_nat (length out) + 32 :: u32))
         (unat (WT_ALIGN (of_nat (length out) + 32) (allocsize s) - (of_nat (length out) + 32)))
         = Some t3"
      "set_dsk_size t3 (WT_ALIGN (of_nat (length out) + 32) (allocsize s)) = Some t4"
      "p = \<lparr>p_ret = OK, p_buf = buf\<lparr>buf_mem := m2\<rparr>,
            p_tmp = Some \<lparr>buf_mem = t4, buf_size = of_nat (length out) + 32\<rparr>,
            p_dsk = In_tmp, p_align = WT_ALIGN (of_nat (length out) + 32) (allocsize s)\<rparr>"
  using prep
proof (cases rule: disk_write_prepare_cases)
  case (no_codec m1 m2)
  then show ?thesis by (intro plain)
next
  case (minimal m1 m2 c)
  then show ?thesis by (intro plain)
next
  case (scratch m1 m2 c)
  with ok show ?thesis by simp
next
  case (declined m1 m2 c tm src)
  then show ?thesis by (intro plain)
next
  case (useless m1 m2 c tm src out t1)
  then show ?thesis by (intro plain)
next
  case (adopted m1 m2 c tm src out t1 t2 t3 t4)
  then show ?thesis by (intro that(2))
qed

text \<open>
  C5. The size a successful \<^verbatim>\<open>__wt_disk_write\<close> returns through \<^verbatim>\<open>sizep\<close> is a
  non-zero multiple of the allocation unit: when the caller's buffer is persisted
  it is the length of the page image rounded up to the allocation unit, and when
  the compressed scratch copy is persisted it is the compressed length plus 32,
  rounded up. The page image is not empty, the allocation unit is not zero and
  the buffer's capacity is a 32-bit quantity.
\<close>

theorem write_size_aligned:
  assumes w: "wt_disk_write env s buf = Some r" and ok: "w_ret r = OK"
    and v: "allocsize s \<noteq> 0" and nz: "buf_size buf \<noteq> 0"
    and cap: "length (buf_mem buf) < 2 ^ 32"
  shows "\<exists>sz. w_size r = Some sz \<and> sz \<noteq> 0 \<and> unat (allocsize s) dvd unat sz \<and>
     (w_dsk r = In_buf \<longrightarrow>
        unat sz = round_up (unat (buf_size buf)) (unat (allocsize s))) \<and>
     (w_dsk r = In_tmp \<longrightarrow>
        (\<exists>c src out. compressor s = Some c \<and>
           mem_read (buf_mem buf) 32 (unat (buf_size buf) - 32) = Some src \<and>
           compress c src (unat (buf_size buf) - 32) = Some out \<and>
           unat sz = round_up (length out + 32) (unat (allocsize s))))"
proof -
  let ?V = "unat (allocsize s)"
  have V: "0 < ?V" using v by (simp add: unat_gt_0)
  have N: "0 < unat (buf_size buf)" using nz by (simp add: unat_gt_0)
  from w ok obtain p where prep: "disk_write_prepare env s buf = Some p"
    and pok: "p_ret p = OK" and fin: "disk_write_finish env s p = Some r"
    by (rule wt_disk_write_ok)
  from prep pok show ?thesis
  proof (cases rule: disk_write_prepare_ok_cases)
    case (plain m1 m2 tmp)
    note po = plain_outcome [OF plain fin ok v cap]
    let ?A = "WT_ALIGN (buf_size buf) (allocsize s)"
    have "?V \<le> unat ?A" using po(3) round_up_ge_unit [OF V N] by simp
    then have "?A \<noteq> 0" using V by (auto simp: unat_eq_0)
    moreover have "?V dvd unat ?A" using po(3) by (simp add: round_up_dvd)
    ultimately show ?thesis using po(1,2,3) by simp
  next
    case (adopted m1 m2 c tm src out t1 t2 t3 t4)
    note ao = adopted_outcome [OF adopted(1,2,5,7,8,9,10,11,12,13) fin ok v cap]
    let ?A' = "WT_ALIGN (of_nat (length out) + 32) (allocsize s)"
    have "?V \<le> unat ?A'" using ao(7) round_up_ge_unit [OF V, of "length out + 32"] by simp
    then have "?A' \<noteq> 0" using V by (auto simp: unat_eq_0)
    moreover have "?V dvd unat ?A'" using ao(7) by (simp add: round_up_dvd)
    moreover have "compress c src (unat (buf_size buf) - 32) = Some out"
      using adopted(6) ao(5) by simp
    ultimately show ?thesis using ao(1,2,6,7) adopted(3) by auto
  qed
qed

theorem write_size_aligned_witness:
  "\<exists>r sz. wt_disk_write demo_env plain_session small_page = Some r \<and> w_ret r = OK \<and>
     w_size r = Some sz \<and> sz \<noteq> 0 \<and> unat (allocsize plain_session) dvd unat sz \<and>
     unat sz = round_up (unat (buf_size small_page)) (unat (allocsize plain_session))"
proof -
  obtain r where r: "wt_disk_write demo_env plain_session small_page = Some r"
    and ok: "w_ret r = OK" and dsk: "w_dsk r = In_buf"
    by (rule demo_write_plain)
  have v: "allocsize plain_session \<noteq> 0"
    by (simp add: plain_session_def demo_session_def)
  have nz: "buf_size small_page \<noteq> 0" by (simp add: small_page_def)
  have cap: "length (buf_mem small_page) < 2 ^ 32" by (simp add: small_page_def)
  from write_size_aligned [OF r ok v nz cap] r ok dsk show ?thesis by blast
qed

text \<open>
  C4. In the header of the block a successful \<^verbatim>\<open>__wt_disk_write\<close> persists,
  \<^verbatim>\<open>size\<close> is at most \<^verbatim>\<open>memsize\<close>, and the two are equal exactly when the block is
  the caller's buffer, that is, the uncompressed form. When the compressed scratch
  copy is persisted, \<^verbatim>\<open>size\<close> is a multiple of the allocation unit strictly below
  \<^verbatim>\<open>memsize\<close> rounded up, so it cannot equal \<^verbatim>\<open>memsize\<close>. The page image holds
  at least its 32-byte header.
\<close>

theorem persisted_size_le_memsize:
  assumes w: "wt_disk_write env s buf = Some r" and ok: "w_ret r = OK"
    and v: "allocsize s \<noteq> 0" and valid: "32 \<le> unat (buf_size buf)"
    and cap: "length (buf_mem buf) < 2 ^ 32"
  shows "\<exists>sz msz. dsk_size (w_block r) = Some sz \<and> dsk_memsize (w_block r) = Some msz \<and>
     sz \<le> msz \<and> (sz = msz \<longleftrightarrow> w_dsk r = In_buf) \<and>
     (w_dsk r = In_tmp \<longrightarrow>
        unat (allocsize s) dvd unat sz \<and>
        unat sz < round_up (unat msz) (unat (allocsize s)))"
proof -
  from w ok obtain p where prep: "disk_write_prepare env s buf = Some p"
    and pok: "p_ret p = OK" and fin: "disk_write_finish env s p = Some r"
    by (rule wt_disk_write_ok)
  from prep pok show ?thesis
  proof (cases rule: disk_write_prepare_ok_cases)
    case (plain m1 m2 tmp)
    note po = plain_outcome [OF plain fin ok v cap]
    have "20 \<le> unat (buf_size buf)" using valid by simp
    from po(5) [OF this] po(1) show ?thesis by simp
  next
    case (adopted m1 m2 c tm src out t1 t2 t3 t4)
    note ao = adopted_outcome [OF adopted(1,2,5,7,8,9,10,11,12,13) fin ok v cap]
    let ?A' = "WT_ALIGN (of_nat (length out) + 32) (allocsize s)"
    have "unat ?A' < unat (buf_size buf)" using ao(7,10) by simp
    then have "?A' < buf_size buf" by (simp add: word_less_nat_alt)
    moreover have "unat (allocsize s) dvd unat ?A'" using ao(7) by (simp add: round_up_dvd)
    moreover have "unat ?A' < round_up (unat (buf_size buf)) (unat (allocsize s))"
      using ao(7,9) by simp
    ultimately show ?thesis using ao(1,11,12) by auto
  qed
qed

theorem persisted_size_le_memsize_witness:
  "\<exists>r sz msz. wt_disk_write demo_env demo_session demo_page = Some r \<and> w_ret r = OK \<and>
     w_dsk r = In_tmp \<and>
     dsk_size (w_block r) = Some sz \<and> dsk_memsize (w_block r) = Some msz \<and>
     sz \<le> msz \<and> sz \<noteq> msz \<and> unat (allocsize demo_session) dvd unat sz \<and>
     unat sz < round_up (unat msz) (unat (allocsize demo_session))"
proof -
  obtain r where r: "wt_disk_write demo_env demo_session demo_page = Some r"
    and ok: "w_ret r = OK" and dsk: "w_dsk r = In_tmp"
    by (rule demo_write_adopted)
  have v: "allocsize demo_session \<noteq> 0" by (simp add: demo_session_def)
  have valid: "32 \<le> unat (buf_size demo_page)" by (simp add: demo_page_def)
  have cap: "length (buf_mem demo_page) < 2 ^ 32" by (simp add: demo_page_def)
  from persisted_size_le_memsize [OF r ok v valid cap] r ok dsk show ?thesis by auto
qed

text \<open>
  C10. When \<^verbatim>\<open>__wt_disk_write\<close> persists the compressed scratch copy, the caller's
  buffer is changed only by line 122: its memory is the old memory with the header
  fields \<^verbatim>\<open>memsize\<close> and \<^verbatim>\<open>size\<close> set to \<^verbatim>\<open>buf->size\<close>. Its \<^verbatim>\<open>size\<close> is as
  before, the four bytes before the two fields and every byte behind them (the
  rest of the header with \<^verbatim>\<open>lsn\<close>, the payload, the slack, which is not zeroed)
  are as before. The new \<^verbatim>\<open>lsn\<close> and the on-disk size are in the block that is
  persisted, whose \<^verbatim>\<open>size\<close> field differs from the caller's.
\<close>

theorem adopted_write_frame:
  assumes w: "wt_disk_write env s buf = Some r" and ok: "w_ret r = OK"
    and ad: "w_dsk r = In_tmp"
    and v: "allocsize s \<noteq> 0" and cap: "length (buf_mem buf) < 2 ^ 32"
  shows "(\<exists>m1. set_dsk_memsize (buf_mem buf) (buf_size buf) = Some m1 \<and>
            set_dsk_size m1 (buf_size buf) = Some (buf_mem (w_buf r))) \<and>
     buf_size (w_buf r) = buf_size buf \<and>
     dsk_size (buf_mem (w_buf r)) = Some (buf_size buf) \<and>
     dsk_memsize (buf_mem (w_buf r)) = Some (buf_size buf) \<and>
     take 4 (buf_mem (w_buf r)) = take 4 (buf_mem buf) \<and>
     drop 12 (buf_mem (w_buf r)) = drop 12 (buf_mem buf) \<and>
     dsk_checksum (buf_mem (w_buf r)) = dsk_checksum (buf_mem buf) \<and>
     dsk_lsn (buf_mem (w_buf r)) = dsk_lsn (buf_mem buf) \<and>
     dsk_lsn (w_block r) = Some (WT_LSN_INCR (lsn s)) \<and>
     (\<exists>sz. w_size r = Some sz \<and> dsk_size (w_block r) = Some sz \<and> sz \<noteq> buf_size buf)"
proof -
  from w ok obtain p where prep: "disk_write_prepare env s buf = Some p"
    and pok: "p_ret p = OK" and fin: "disk_write_finish env s p = Some r"
    by (rule wt_disk_write_ok)
  from prep pok show ?thesis
  proof (cases rule: disk_write_prepare_ok_cases)
    case (plain m1 m2 tmp)
    from plain_outcome(1) [OF plain fin ok v cap] ad show ?thesis by simp
  next
    case (adopted m1 m2 c tm src out t1 t2 t3 t4)
    note ao = adopted_outcome [OF adopted(1,2,5,7,8,9,10,11,12,13) fin ok v cap]
    note hf = header_set_fields [OF adopted(1,2)]
    let ?A' = "WT_ALIGN (of_nat (length out) + 32) (allocsize s)"
    have "unat ?A' < unat (buf_size buf)" using ao(7,10) by simp
    then have "?A' \<noteq> buf_size buf" by auto
    then show ?thesis using ao(2,3,11,13) hf adopted(1,2) by simp
  qed
qed

theorem adopted_write_frame_witness:
  "\<exists>r. wt_disk_write demo_env demo_session demo_page = Some r \<and> w_ret r = OK \<and>
     w_dsk r = In_tmp \<and> buf_size (w_buf r) = buf_size demo_page \<and>
     take 4 (buf_mem (w_buf r)) = take 4 (buf_mem demo_page) \<and>
     drop 12 (buf_mem (w_buf r)) = drop 12 (buf_mem demo_page) \<and>
     dsk_lsn (w_block r) = Some (WT_LSN_INCR (lsn demo_session))"
proof -
  obtain r where r: "wt_disk_write demo_env demo_session demo_page = Some r"
    and ok: "w_ret r = OK" and dsk: "w_dsk r = In_tmp"
    by (rule demo_write_adopted)
  have v: "allocsize demo_session \<noteq> 0" by (simp add: demo_session_def)
  have cap: "length (buf_mem demo_page) < 2 ^ 32" by (simp add: demo_page_def)
  from adopted_write_frame [OF r ok dsk v cap] r ok dsk show ?thesis by blast
qed

text \<open>
  C3. A successful \<^verbatim>\<open>__wt_disk_write\<close> with a compressor configured, on a page that
  is not already of minimal size (so that \<^verbatim>\<open>compress\<close> is called), whose \<^verbatim>\<open>compress\<close>
  call succeeds with \<open>out\<close>: the compressed scratch copy is persisted, and the
  persisted header has \<^verbatim>\<open>size\<close> different from \<^verbatim>\<open>memsize\<close>, if and only if the
  compressed length plus 32, rounded up to the allocation unit, is strictly below
  the length of the page image rounded up. Otherwise the compressed attempt is
  dropped and the caller's buffer is persisted at the uncompressed aligned size.
\<close>

theorem compression_adoption_rule:
  assumes w: "wt_disk_write env s buf = Some r" and ok: "w_ret r = OK"
    and v: "allocsize s \<noteq> 0" and cap: "length (buf_mem buf) < 2 ^ 32"
    and comp: "compressor s = Some c"
    and called: "WT_ALIGN (buf_size buf) (allocsize s) \<noteq> allocsize s"
    and src: "mem_read (buf_mem buf) 32 (unat (buf_size buf) - 32) = Some src"
    and out: "compress c src (unat (buf_size buf) - 32) = Some out"
  shows "(w_dsk r = In_tmp \<longleftrightarrow>
            round_up (length out + 32) (unat (allocsize s))
              < round_up (unat (buf_size buf)) (unat (allocsize s))) \<and>
     (\<exists>sz msz. dsk_size (w_block r) = Some sz \<and> dsk_memsize (w_block r) = Some msz \<and>
        (sz \<noteq> msz \<longleftrightarrow>
           round_up (length out + 32) (unat (allocsize s))
             < round_up (unat (buf_size buf)) (unat (allocsize s)))) \<and>
     (\<not> round_up (length out + 32) (unat (allocsize s))
          < round_up (unat (buf_size buf)) (unat (allocsize s)) \<longrightarrow>
        w_dsk r = In_buf \<and> w_size r = Some (WT_ALIGN (buf_size buf) (allocsize s)))"
proof -
  let ?n = "buf_size buf"
  let ?V = "unat (allocsize s)"
  from w ok obtain p where prep: "disk_write_prepare env s buf = Some p"
    and pok: "p_ret p = OK" and fin: "disk_write_finish env s p = Some r"
    by (rule wt_disk_write_ok)
  have same: "src' = src \<and> unat (?n - 32) = unat ?n - 32 \<and> 32 \<le> unat ?n"
    if m1: "set_dsk_memsize (buf_mem buf) ?n = Some m1"
      and m2: "set_dsk_size m1 ?n = Some m2"
      and src': "mem_read m2 32 (unat (?n - 32)) = Some src'" for m1 m2 src'
  proof -
    have len: "length m2 = length (buf_mem buf)" using m1 m2 by (rule header_set_fields)
    have sb: "32 \<le> unat ?n" "unat (?n - 32) = unat ?n - 32"
      using src_bounds [OF src'] cap len by simp_all
    have "mem_read (buf_mem buf) 32 (unat ?n - 32) = Some src'"
      using header_set_read [OF m1 m2, of 32 "unat ?n - 32"] src' sb by simp
    with src sb show ?thesis by simp
  qed
  from prep show ?thesis
  proof (cases rule: disk_write_prepare_cases)
    case (no_codec m1 m2)
    with comp show ?thesis by simp
  next
    case (minimal m1 m2 c')
    with called show ?thesis by simp
  next
    case (scratch m1 m2 c')
    with pok show ?thesis by simp
  next
    case (declined m1 m2 c' tm src')
    from same [OF declined(1,2,6)] declined(3,7) comp out show ?thesis by simp
  next
    case (useless m1 m2 c' tm src' out' t1)
    note sm = same [OF useless(1,2,6)]
    have out': "out' = out" using sm useless(3,7) comp out by simp
    note po = plain_outcome [OF useless(1,2,11) fin ok v cap]
    have "unat (WT_ALIGN ?n (allocsize s))
        \<le> unat (WT_ALIGN (of_nat (length out) + 32) (allocsize s))"
      using useless(10) out' by (simp add: word_le_nat_alt)
    also have "\<dots> = round_up (unat (of_nat (length out) + 32 :: u32)) ?V mod 2 ^ 32"
      by (rule unat_WT_ALIGN)
    also have "\<dots> \<le> round_up (unat (of_nat (length out) + 32 :: u32)) ?V"
      by simp
    also have "unat (of_nat (length out) + 32 :: u32) \<le> length out + 32"
    proof -
      have "(of_nat (length out) + 32 :: u32) = of_nat (length out + 32)" by simp
      then have "unat (of_nat (length out) + 32 :: u32) = (length out + 32) mod 2 ^ 32"
        by (simp only: unat_of_nat) simp
      then show ?thesis by simp
    qed
    then have "round_up (unat (of_nat (length out) + 32 :: u32)) ?V
        \<le> round_up (length out + 32) ?V"
      by (rule round_up_mono)
    finally have "\<not> round_up (length out + 32) ?V < round_up (unat ?n) ?V"
      using po(3) by simp
    moreover have "20 \<le> unat ?n" using sm by simp
    ultimately show ?thesis using po(1,2) po(5) by simp
  next
    case (adopted m1 m2 c' tm src' out' t1 t2 t3 t4)
    note sm = same [OF adopted(1,2,6)]
    have out': "out' = out" using sm adopted(3,7) comp out by simp
    note ao = adopted_outcome [OF adopted(1,2,6,8,9,10,11,12,13,14) fin ok v cap]
    have "unat (WT_ALIGN (of_nat (length out) + 32) (allocsize s)) < unat ?n"
      using ao(7,10) out' by simp
    then have "WT_ALIGN (of_nat (length out) + 32) (allocsize s) \<noteq> ?n" by auto
    then show ?thesis using ao(1,9,11,12) out' by simp
  qed
qed

theorem compression_adoption_rule_witness:
  "\<exists>r sz msz. wt_disk_write demo_env demo_session demo_page = Some r \<and> w_ret r = OK \<and>
     w_dsk r = In_tmp \<and> dsk_size (w_block r) = Some sz \<and>
     dsk_memsize (w_block r) = Some msz \<and> sz \<noteq> msz"
proof -
  obtain r where r: "wt_disk_write demo_env demo_session demo_page = Some r"
    and ok: "w_ret r = OK"
    by (rule demo_write_adopted)
  have v: "allocsize demo_session \<noteq> 0" by (simp add: demo_session_def)
  have cap: "length (buf_mem demo_page) < 2 ^ 32" by (simp add: demo_page_def)
  have comp: "compressor demo_session = Some run_codec" by (simp add: demo_session_def)
  have called: "WT_ALIGN (buf_size demo_page) (allocsize demo_session) \<noteq> allocsize demo_session"
    by code_simp
  have lt: "round_up (length [7 :: u8] + 32) (unat (allocsize demo_session))
      < round_up (unat (buf_size demo_page)) (unat (allocsize demo_session))"
    by (simp add: round_up_def demo_session_def demo_page_def)
  from compression_adoption_rule
    [OF r ok v cap comp called demo_page_payload demo_page_compressed] lt r ok
  show ?thesis by blast
qed

lemma mem_write_total: "off + length bs \<le> length m \<Longrightarrow> \<exists>m'. mem_write m off bs = Some m'"
  by (simp add: mem_write_def)

lemma not_compressed_total:
  assumes "unat (buf_size b) + unat (A - buf_size b) \<le> length (buf_mem b)"
    and "12 \<le> length (buf_mem b)"
  shows "\<exists>p. not_compressed b tmp A = Some p"
proof -
  obtain m1 where m1: "memset0 (buf_mem b) (unat (buf_size b)) (unat (A - buf_size b)) = Some m1"
    using mem_write_total [of "unat (buf_size b)" "replicate (unat (A - buf_size b)) 0" "buf_mem b"]
      assms(1) by (auto simp: memset0_def)
  then have l1: "length m1 = length (buf_mem b)"
    by (simp add: memset0_def mem_write_length)
  obtain m2 where m2: "set_dsk_memsize m1 A = Some m2"
    using mem_write_total [of 8 "le_bytes 4 A" m1] assms(2) l1 by (auto simp: hdr_defs)
  then have l2: "length m2 = length m1" by (rule set_dsk_length)
  obtain m3 where m3: "set_dsk_size m2 A = Some m3"
    using mem_write_total [of 4 "le_bytes 4 A" m2] assms(2) l1 l2 by (auto simp: hdr_defs)
  show ?thesis using m1 m2 m3 by (simp add: not_compressed_def)
qed

lemma disk_write_finish_total:
  assumes alloc: "wt_block_alloc env (blocks s) (p_align p) = Some (addr, bl)"
    and d0: "dsk_deref p = Some d0" and hdr: "20 \<le> length d0"
    and fit: "unat (p_align p) \<le> length d0"
    and io: "\<forall>blk. wt_write env (fh s) (unat addr * unat (allocsize s)) blk \<noteq> None"
  shows "\<exists>r. disk_write_finish env s p = Some r \<and> w_ret r = OK"
proof -
  obtain d1 where d1: "set_dsk_lsn d0 (WT_LSN_INCR (lsn s)) = Some d1"
    using mem_write_total [of 12 "le_bytes 8 (WT_LSN_INCR (lsn s))" d0] hdr
    by (auto simp: hdr_defs)
  then have l1: "length d1 = length d0" by (rule set_dsk_length)
  obtain d2 where d2: "set_dsk_checksum d1 0 = Some d2"
    using mem_write_total [of 0 "le_bytes 4 (0 :: u32)" d1] hdr l1 by (auto simp: hdr_defs)
  then have l2: "length d2 = length d1" by (rule set_dsk_length)
  obtain blk where blk: "mem_read d2 0 (unat (p_align p)) = Some blk"
    using fit l1 l2 by (simp add: mem_read_def)
  obtain d3 where d3: "set_dsk_checksum d2 (wt_cksum env blk) = Some d3"
    using mem_write_total [of 0 "le_bytes 4 (wt_cksum env blk)" d2] hdr l1 l2
    by (auto simp: hdr_defs)
  then have l3: "length d3 = length d2" by (rule set_dsk_length)
  obtain block where block: "mem_read d3 0 (unat (p_align p)) = Some block"
    using fit l1 l2 l3 by (simp add: mem_read_def)
  from io have "wt_write env (fh s) (unat addr * unat (allocsize s)) block \<noteq> None"
    by blast
  then obtain f where f: "wt_write env (fh s) (unat addr * unat (allocsize s)) block = Some f"
    by auto
  show ?thesis
    using alloc d0 d1 d2 blk d3 block f
    by (simp add: disk_write_finish_def Let_def WT_ADDR_TO_OFF_def)
qed

text \<open>
  C7. When the \<^verbatim>\<open>compress\<close> callback fails, \<^verbatim>\<open>__wt_disk_write\<close> does not return
  its error: given that the scratch allocation, the block allocation and
  \<^verbatim>\<open>__wt_write\<close> succeed, that the page passes the assertion where it is compiled
  in, and that the caller's buffer has room up to the next allocation boundary,
  the call returns 0, having persisted the caller's buffer: \<^verbatim>\<open>size\<close> and
  \<^verbatim>\<open>memsize\<close> in the persisted header both equal \<^verbatim>\<open>align_size\<close>, the payload is
  the original one and the bytes from the end of the page image to \<^verbatim>\<open>align_size\<close>
  are zero.
\<close>

theorem compress_failure_falls_back:
  assumes comp: "compressor s = Some c"
    and called: "WT_ALIGN (buf_size buf) (allocsize s) \<noteq> allocsize s"
    and v: "allocsize s \<noteq> 0" and valid: "32 \<le> unat (buf_size buf)"
    and slack: "round_up (unat (buf_size buf)) (unat (allocsize s)) \<le> length (buf_mem buf)"
    and cap: "length (buf_mem buf) < 2 ^ 32"
    and m1: "set_dsk_memsize (buf_mem buf) (buf_size buf) = Some m1"
    and m2: "set_dsk_size m1 (buf_size buf) = Some m2"
    and pass: "diagnostic env \<longrightarrow> wt_verify_dsk env m2 (buf_size buf)"
    and scr: "wt_scr_mem env (buf_size buf) = Some tm"
    and src: "mem_read (buf_mem buf) 32 (unat (buf_size buf) - 32) = Some src"
    and fail: "compress c src (unat (buf_size buf) - 32) = None"
    and alloc: "wt_block_alloc env (blocks s) (WT_ALIGN (buf_size buf) (allocsize s))
                  = Some (addr, bl)"
    and io: "\<forall>blk. wt_write env (fh s) (unat addr * unat (allocsize s)) blk \<noteq> None"
  shows "\<exists>r. wt_disk_write env s buf = Some r \<and> w_ret r = OK \<and> w_dsk r = In_buf \<and>
     w_size r = Some (WT_ALIGN (buf_size buf) (allocsize s)) \<and>
     unat (WT_ALIGN (buf_size buf) (allocsize s))
       = round_up (unat (buf_size buf)) (unat (allocsize s)) \<and>
     dsk_size (w_block r) = Some (WT_ALIGN (buf_size buf) (allocsize s)) \<and>
     dsk_memsize (w_block r) = Some (WT_ALIGN (buf_size buf) (allocsize s)) \<and>
     mem_read (w_block r) 32 (unat (buf_size buf) - 32) = Some src \<and>
     mem_read (w_block r) (unat (buf_size buf))
         (round_up (unat (buf_size buf)) (unat (allocsize s)) - unat (buf_size buf))
       = Some (replicate
           (round_up (unat (buf_size buf)) (unat (allocsize s)) - unat (buf_size buf)) 0)"
proof -
  let ?n = "buf_size buf"
  let ?N = "unat ?n"
  let ?V = "unat (allocsize s)"
  let ?R = "round_up ?N ?V"
  let ?A = "WT_ALIGN ?n (allocsize s)"
  let ?b = "buf\<lparr>buf_mem := m2\<rparr>"
  let ?tmp = "Some \<lparr>buf_mem = tm, buf_size = ?n\<rparr>"
  have V: "0 < ?V" using v by (simp add: unat_gt_0)
  have NR: "?N \<le> ?R" using V by (rule round_up_ge)
  have len: "length m2 = length (buf_mem buf)" using m1 m2 by (rule header_set_fields)
  have sub: "unat (?n - 32) = ?N - 32"
    using valid by (simp add: unat_sub word_le_nat_alt)
  have src2: "mem_read m2 32 (unat (?n - 32)) = Some src"
    using header_set_read [OF m1 m2, of 32 "?N - 32"] src sub by simp
  have np: "\<not> (diagnostic env \<and> \<not> wt_verify_dsk env m2 ?n)" using pass by blast
  have prep: "disk_write_prepare env s buf = not_compressed ?b ?tmp ?A"
    using comp called m1 m2 np scr src2 fail sub
    by (auto simp: disk_write_prepare_def wt_scr_alloc_def COMPRESS_SKIP_def Let_def)
  have gap: "unat (?A - ?n) = ?R - ?N" using v by (rule align_gap)
  have "unat (buf_size ?b) + unat (?A - buf_size ?b) \<le> length (buf_mem ?b)"
    using gap NR slack len by simp
  moreover have "12 \<le> length (buf_mem ?b)" using valid NR slack len by simp
  ultimately obtain p where nc: "not_compressed ?b ?tmp ?A = Some p"
    using not_compressed_total by blast
  note simple = not_compressed_simple [OF nc]
  have nc': "not_compressed ?b ?tmp (WT_ALIGN (buf_size ?b) (allocsize s)) = Some p"
    using nc by simp
  have cap': "length (buf_mem ?b) < 2 ^ 32" using cap len by simp
  have A: "unat ?A = ?R" using not_compressed_fits(2) [OF nc' v cap'] by simp
  have d0: "dsk_deref p = Some (buf_mem (p_buf p))"
    using simple by (simp add: dsk_deref_def)
  have l0: "length (buf_mem (p_buf p)) = length (buf_mem buf)" using simple(6) len by simp
  have "\<exists>r. disk_write_finish env s p = Some r \<and> w_ret r = OK"
  proof (rule disk_write_finish_total [OF _ d0 _ _ io])
    show "wt_block_alloc env (blocks s) (p_align p) = Some (addr, bl)"
      using alloc simple by simp
    show "20 \<le> length (buf_mem (p_buf p))" using l0 valid NR slack by simp
    show "unat (p_align p) \<le> length (buf_mem (p_buf p))" using l0 A slack simple by simp
  qed
  then obtain r where fin: "disk_write_finish env s p = Some r" and ok: "w_ret r = OK"
    by blast
  have w: "wt_disk_write env s buf = Some r"
    using prep nc fin simple(1) by (simp add: wt_disk_write_def)
  note po = plain_outcome [OF m1 m2 nc fin ok v cap]
  have n20: "20 \<le> ?N" using valid by simp
  from fin ok obtain a' bl' e0 d1 d2 blk d3 where
    st: "dsk_deref p = Some e0" "set_dsk_lsn e0 (WT_LSN_INCR (lsn s)) = Some d1"
      "set_dsk_checksum d1 0 = Some d2" "mem_read d2 0 (unat (p_align p)) = Some blk"
      "set_dsk_checksum d2 (wt_cksum env blk) = Some d3"
      "mem_read d3 0 (unat (p_align p)) = Some (w_block r)"
    by (rule finish_ok)
  have e0: "e0 = buf_mem (p_buf p)" using st(1) d0 by simp
  have k: "20 \<le> unat (p_align p)" using simple(4) A NR n20 by simp
  note sf = stamp_facts [OF st(2) st(3) st(4) st(5) st(6) k]
  have kA: "unat (p_align p) = ?R" using simple(4) A by simp
  have "mem_read (w_block r) 32 (?N - 32) = mem_read (take ?R (buf_mem (p_buf p))) 32 (?N - 32)"
    using sf(9) [of 32 "?N - 32"] e0 kA by simp
  also have "\<dots> = mem_read (buf_mem (p_buf p)) 32 (?N - 32)"
    using NR valid by (intro mem_read_take) simp
  also have "\<dots> = mem_read m2 32 (?N - 32)"
    using not_compressed_payload [OF nc, of 32 "?N - 32"] valid by simp
  finally have payload: "mem_read (w_block r) 32 (?N - 32) = Some src"
    using src2 sub by simp
  have "mem_read (w_block r) ?N (?R - ?N) = mem_read (take ?R (buf_mem (p_buf p))) ?N (?R - ?N)"
    using sf(9) [of ?N "?R - ?N"] e0 kA n20 by simp
  also have "\<dots> = mem_read (buf_mem (p_buf p)) ?N (?R - ?N)"
    using NR by (intro mem_read_take) simp
  also have "\<dots> = Some (replicate (?R - ?N) 0)"
    using not_compressed_padding [OF nc] valid gap by simp
  finally have padding: "mem_read (w_block r) ?N (?R - ?N) = Some (replicate (?R - ?N) 0)" .
  show ?thesis
    using w ok po(1,2,3) po(5) [OF n20] payload padding by simp
qed

theorem compress_failure_falls_back_witness:
  "\<exists>r. wt_disk_write demo_env demo_session mixed_page = Some r \<and> w_ret r = OK \<and>
     w_dsk r = In_buf \<and> w_size r = Some 1024 \<and>
     dsk_size (w_block r) = Some 1024 \<and> dsk_memsize (w_block r) = Some 1024"
proof -
  have comp: "compressor demo_session = Some run_codec" by (simp add: demo_session_def)
  have al: "WT_ALIGN (buf_size mixed_page) (allocsize demo_session) = 1024"
    by code_simp
  have called: "WT_ALIGN (buf_size mixed_page) (allocsize demo_session) \<noteq> allocsize demo_session"
    using al by (simp add: demo_session_def)
  have v: "allocsize demo_session \<noteq> 0" by (simp add: demo_session_def)
  have valid: "32 \<le> unat (buf_size mixed_page)" by (simp add: mixed_page_def)
  have slack: "round_up (unat (buf_size mixed_page)) (unat (allocsize demo_session))
      \<le> length (buf_mem mixed_page)"
    by (simp add: round_up_def mixed_page_def demo_session_def)
  have cap: "length (buf_mem mixed_page) < 2 ^ 32" by (simp add: mixed_page_def)
  have m1: "set_dsk_memsize (buf_mem mixed_page) (buf_size mixed_page) =
      Some ([1, 1, 1, 1, 1, 1, 1, 1, 88, 2, 0, 0] @ replicate 20 1 @ replicate 567 7 @ [8]
              @ replicate 424 9)"
    by code_simp
  have m2: "set_dsk_size ([1, 1, 1, 1, 1, 1, 1, 1, 88, 2, 0, 0] @ replicate 20 1 @
        replicate 567 7 @ [8] @ replicate 424 9) (buf_size mixed_page) =
      Some ([1, 1, 1, 1, 88, 2, 0, 0, 88, 2, 0, 0] @ replicate 20 1 @ replicate 567 7 @ [8]
              @ replicate 424 9)"
    by code_simp
  have pass: "diagnostic demo_env \<longrightarrow>
      wt_verify_dsk demo_env ([1, 1, 1, 1, 88, 2, 0, 0, 88, 2, 0, 0] @ replicate 20 1 @
        replicate 567 7 @ [8] @ replicate 424 9) (buf_size mixed_page)"
    by (simp add: demo_env_def)
  have scr: "wt_scr_mem demo_env (buf_size mixed_page)
      = Some (replicate (unat (buf_size mixed_page)) 170)"
    by (simp add: demo_env_def)
  have src: "mem_read (buf_mem mixed_page) 32 (unat (buf_size mixed_page) - 32)
      = Some (replicate 567 7 @ [8])"
    by code_simp
  have fail: "compress run_codec (replicate 567 7 @ [8]) (unat (buf_size mixed_page) - 32) = None"
    by code_simp
  have alloc: "wt_block_alloc demo_env (blocks demo_session)
      (WT_ALIGN (buf_size mixed_page) (allocsize demo_session)) = Some (0, 2)"
    using al by (simp add: demo_env_def demo_session_def)
  have io: "\<forall>blk. wt_write demo_env (fh demo_session)
      (unat (0 :: u32) * unat (allocsize demo_session)) blk \<noteq> None"
    by (simp add: demo_env_def file_write_total)
  from compress_failure_falls_back
    [OF comp called v valid slack cap m1 m2 pass scr src fail alloc io]
  show ?thesis by (auto simp: al)
qed

subsection \<open>Writing, then reading\<close>

lemma mem_read_append_left:
  "off + n \<le> length xs \<Longrightarrow> mem_read (xs @ ys) off n = mem_read xs off n"
  by (simp add: mem_read_def)

lemma mem_write_append_left:
  "mem_write xs off bs = Some xs' \<Longrightarrow> mem_write (xs @ ys) off bs = Some (xs' @ ys)"
  by (auto simp: mem_write_def split: if_splits)

lemma mem_write_whole:
  "length bs \<le> length m \<Longrightarrow> mem_write m 0 bs = Some (bs @ drop (length bs) m)"
  by (simp add: mem_write_def)

lemma dsk_append_left:
  assumes "20 \<le> length xs"
  shows "dsk_checksum (xs @ ys) = dsk_checksum xs" "dsk_size (xs @ ys) = dsk_size xs"
    "dsk_memsize (xs @ ys) = dsk_memsize xs" "dsk_lsn (xs @ ys) = dsk_lsn xs"
  using assms by (simp_all add: hdr_defs mem_read_append_left)

lemma zeroed_block_facts:
  assumes "set_dsk_checksum block 0 = Some blk"
  shows "length blk = length block" "dsk_size blk = dsk_size block"
    "dsk_memsize blk = dsk_memsize block"
    "\<And>off n. 4 \<le> off \<Longrightarrow> mem_read blk off n = mem_read block off n"
proof -
  show "length blk = length block" using assms by (rule set_dsk_length)
  show "dsk_size blk = dsk_size block" using assms by (rule dsk_size_frame)
  show "dsk_memsize blk = dsk_memsize block" using assms by (rule dsk_memsize_frame)
  fix off n :: nat
  assume "4 \<le> off"
  then show "mem_read blk off n = mem_read block off n"
    using assms by (simp add: hdr_defs mem_read_write_other)
qed

text \<open>
  Reading back a block that \<^verbatim>\<open>__wt_disk_write\<close> has stamped: the checksum matches,
  and the buffer holds the block with its checksum field zeroed.
\<close>

lemma read_back_verified:
  assumes c0: "set_dsk_checksum d1 0 = Some d2"
    and b: "mem_read d2 0 (unat sz) = Some blk"
    and c: "set_dsk_checksum d2 (wt_cksum env blk) = Some d3"
    and bl: "mem_read d3 0 (unat sz) = Some block"
    and zb: "set_dsk_checksum block 0 = Some blk"
    and ck: "dsk_checksum block = Some (wt_cksum env blk)"
    and k: "20 \<le> unat sz"
    and rd: "wt_read env (fh s') (WT_ADDR_TO_OFF s' addr) (unat sz) = Some block"
    and rcap: "unat sz \<le> length (buf_mem rbuf)"
  shows "wt_disk_read env s' rbuf addr sz =
           disk_read_decompress env
             (s'\<lparr>page_read := page_read s' + 1, block_read := block_read s' + 1\<rparr>)
             (rbuf\<lparr>buf_mem := blk @ drop (unat sz) (buf_mem rbuf)\<rparr>)"
proof -
  let ?rest = "drop (unat sz) (buf_mem rbuf)"
  have lb: "length block = unat sz" using bl by (rule mem_read_length)
  have lk: "length blk = unat sz" using b by (rule mem_read_length)
  have h2: "mem_write (buf_mem rbuf) 0 block = Some (block @ ?rest)"
    using mem_write_whole [of block "buf_mem rbuf"] rcap lb by simp
  have h3: "dsk_checksum (block @ ?rest) = Some (wt_cksum env blk)"
    using dsk_append_left(1) [of block ?rest] k lb ck by simp
  have h4: "set_dsk_checksum (block @ ?rest) 0 = Some (blk @ ?rest)"
    using zb by (simp add: hdr_defs mem_write_append_left)
  have h5: "mem_read (blk @ ?rest) 0 (unat sz) = Some blk"
    using lk by (simp add: mem_read_def)
  show ?thesis
    by (rule wt_disk_read_verified [OF rd h2 h3 h4 h5]) simp
qed

lemma disk_read_decompress_plain:
  assumes "dsk_size (buf_mem b) = Some a" and "dsk_memsize (buf_mem b) = Some a"
  shows "disk_read_decompress env s b = Some (OK, s, b)"
  using assms by (simp add: disk_read_decompress_def)

lemma disk_read_decompress_swap:
  assumes "dsk_size (buf_mem b) = Some a" and "dsk_memsize (buf_mem b) = Some n"
    and "a \<noteq> n" and "wt_scr_mem env n = Some tm"
    and "memcpy tm (buf_mem b) 32 = Some t1"
    and "mem_read (buf_mem b) 32 (unat (buf_size b - 32)) = Some src"
    and "compressor s = Some c"
    and "decompress c src (unat (n - 32)) = Some out"
    and "length out \<le> unat (n - 32)"
    and "mem_write t1 32 out = Some t2"
  shows "disk_read_decompress env s b = Some (OK, s, \<lparr>buf_mem = t2, buf_size = n\<rparr>)"
  using assms
  by (simp add: disk_read_decompress_def wt_scr_alloc_def COMPRESS_SKIP_def Let_def)

lemma memcpy_total:
  "n \<le> length src \<Longrightarrow> n \<le> length dst \<Longrightarrow> \<exists>d. memcpy dst src n = Some d"
  by (simp add: memcpy_def mem_read_def mem_write_def)

lemma memcpy_take: "memcpy dst src n = Some d \<Longrightarrow> take n d = take n src"
  by (auto simp: memcpy_def mem_write_def mem_read_def split: bind_splits if_splits)

lemma zeroed_header:
  assumes "set_dsk_checksum block 0 = Some blk" and "32 \<le> length block"
  shows "set_dsk_checksum (take 32 block) 0 = Some (take 32 blk)"
proof -
  have "mem_write block 0 (le_bytes 4 (0 :: u32)) = Some blk"
    using assms(1) by (simp add: hdr_defs)
  from mem_write_take_commute [OF this, of 32] assms(2) show ?thesis
    by (simp add: hdr_defs)
qed

text \<open>
  The codec \<open>strict_codec\<close> is an exact inverse: whatever \<^verbatim>\<open>compress\<close> produces
  from \<open>src\<close>, \<^verbatim>\<open>decompress\<close> turns back into \<open>src\<close>.
\<close>

lemma strict_codec_inverts:
  assumes "compress strict_codec src cap = Some out"
  shows "decompress strict_codec out (length src) = Some src"
proof (cases src)
  case Nil
  with assms show ?thesis by (simp add: strict_codec_def run_compress_def)
next
  case (Cons b bs)
  with assms have run: "list_all (\<lambda>x. x = b) bs" and out: "out = [b]"
    by (auto simp: strict_codec_def run_compress_def split: if_splits)
  from run have "replicate (length bs) b = bs"
    by (intro replicate_length_same) (simp add: list_all_iff)
  then show ?thesis
    using Cons out by (simp add: strict_codec_def strict_decompress_def)
qed

text \<open>
  C1, as the specification states it, does not hold, in two ways. An exact inverse
  of \<^verbatim>\<open>compress\<close> is not enough: \<^verbatim>\<open>__wt_disk_read\<close> hands \<^verbatim>\<open>decompress\<close> the stored
  bytes up to the end of the block, the compressed bytes and the zero padding
  behind them, so with the codec \<open>strict_codec\<close>, which takes back exactly what it
  has produced, the write succeeds and the read of the same block fails. And in
  the uncompressed form the buffer read back differs from the persisted image in
  its first four bytes, the checksum field, which the read leaves zeroed.
\<close>

theorem round_trip_fails_on_padding:
  "compress strict_codec (replicate 568 7) 568 = Some [7] \<and>
   decompress strict_codec [7] 568 = Some (replicate 568 7) \<and>
   write_then_read demo_env strict_session demo_page blank_buf =
     Some (OK, DecompressionFailed, [153, 0, 0, 0], [0, 0, 0, 0]) \<and>
   write_then_read demo_env plain_session small_page blank_buf =
     Some (OK, OK, [114, 0, 0, 0], [0, 0, 0, 0])"
  by code_simp

text \<open>
  C1, amended. A successful \<^verbatim>\<open>__wt_disk_write\<close> of a page image of \<open>S\<close> bytes,
  followed by \<^verbatim>\<open>__wt_disk_read\<close> of the address and size it returned, succeeds
  and yields a buffer whose 32-byte header is the persisted header with the
  checksum field zeroed and whose bytes from 32 to \<open>S\<close> are the payload of the
  original page image, in the compressed and in the uncompressed form. This
  holds when the file returns the block that was written, \<^verbatim>\<open>buf->size\<close> of the
  buffer read into is the block size and its capacity at least that, the scratch
  pool hands out at least the bytes asked for, and \<^verbatim>\<open>decompress\<close>, given the
  compressed bytes followed by the zero padding of the block, returns the
  original payload.
\<close>

theorem write_read_round_trip:
  assumes w: "wt_disk_write env s buf = Some r" and ok: "w_ret r = OK"
    and addr: "w_addr r = Some addr" and sz: "w_size r = Some sz"
    and v: "allocsize s \<noteq> 0" and valid: "32 \<le> unat (buf_size buf)"
    and cap: "length (buf_mem buf) < 2 ^ 32"
    and rd: "wt_read env (fh (w_session r)) (WT_ADDR_TO_OFF (w_session r) addr) (unat sz)
               = Some (w_block r)"
    and rsize: "buf_size rbuf = sz" and rcap: "unat sz \<le> length (buf_mem rbuf)"
    and scr: "\<forall>tm. wt_scr_mem env (buf_size buf) = Some tm \<longrightarrow>
                unat (buf_size buf) \<le> length tm"
    and codec: "\<forall>c src out. w_dsk r = In_tmp \<and> compressor s = Some c \<and>
                  mem_read (buf_mem buf) 32 (unat (buf_size buf) - 32) = Some src \<and>
                  compress c src (unat (buf_size buf) - 32) = Some out \<longrightarrow>
                  decompress c (out @ replicate (unat sz - 32 - length out) 0)
                    (unat (buf_size buf) - 32) = Some src"
  shows "\<exists>s' b' payload.
     wt_disk_read env (w_session r) rbuf addr sz = Some (OK, s', b') \<and>
     set_dsk_checksum (take 32 (w_block r)) 0 = Some (take 32 (buf_mem b')) \<and>
     mem_read (buf_mem buf) 32 (unat (buf_size buf) - 32) = Some payload \<and>
     mem_read (buf_mem b') 32 (unat (buf_size buf) - 32) = Some payload"
proof -
  let ?n = "buf_size buf"
  let ?N = "unat ?n"
  let ?V = "unat (allocsize s)"
  let ?k = "unat sz"
  let ?rest = "drop ?k (buf_mem rbuf)"
  let ?s1 = "(w_session r)\<lparr>page_read := page_read (w_session r) + 1,
                block_read := block_read (w_session r) + 1\<rparr>"
  have V: "0 < ?V" using v by (simp add: unat_gt_0)
  from w ok obtain p where prep: "disk_write_prepare env s buf = Some p"
    and pok: "p_ret p = OK" and fin: "disk_write_finish env s p = Some r"
    by (rule wt_disk_write_ok)
  from fin ok obtain a' bl d0 d1 d2 blk d3 where
    st: "dsk_deref p = Some d0" "set_dsk_lsn d0 (WT_LSN_INCR (lsn s)) = Some d1"
      "set_dsk_checksum d1 0 = Some d2" "mem_read d2 0 (unat (p_align p)) = Some blk"
      "set_dsk_checksum d2 (wt_cksum env blk) = Some d3"
      "mem_read d3 0 (unat (p_align p)) = Some (w_block r)"
    and rs: "w_size r = Some (p_align p)" "compressor (w_session r) = compressor s"
    by (rule finish_ok)
  have al: "p_align p = sz" using rs(1) sz by simp
  have common:
    "wt_disk_read env (w_session r) rbuf addr sz =
       disk_read_decompress env ?s1 (rbuf\<lparr>buf_mem := blk @ ?rest\<rparr>) \<and>
     set_dsk_checksum (w_block r) 0 = Some blk \<and> length blk = ?k \<and>
     length (w_block r) = ?k \<and>
     set_dsk_checksum (take 32 (w_block r)) 0 = Some (take 32 (blk @ ?rest)) \<and>
     (\<forall>off n. 20 \<le> off \<longrightarrow> mem_read (w_block r) off n = mem_read (take ?k d0) off n)"
    if k: "32 \<le> ?k"
  proof -
    have k20: "20 \<le> unat (p_align p)" using k al by simp
    note sf = stamp_facts [OF st(2) st(3) st(4) st(5) st(6) k20]
    have lk: "length blk = ?k" using mem_read_length [OF st(4)] al by simp
    have lb: "length (w_block r) = ?k" using sf(5) al by simp
    have "wt_disk_read env (w_session r) rbuf addr sz =
       disk_read_decompress env ?s1 (rbuf\<lparr>buf_mem := blk @ ?rest\<rparr>)"
      using st(3,4,5,6) sf(8) sf(4) k20 rd rcap unfolding al
      by (rule read_back_verified)
    moreover have "set_dsk_checksum (take 32 (w_block r)) 0 = Some (take 32 (blk @ ?rest))"
      using zeroed_header [OF sf(8)] lb lk k by simp
    ultimately show ?thesis using sf(8) sf(9) lk lb al by simp
  qed
  from prep pok show ?thesis
  proof (cases rule: disk_write_prepare_ok_cases)
    case (plain m1 m2 tmp)
    let ?A = "WT_ALIGN ?n (allocsize s)"
    let ?R = "round_up ?N ?V"
    note po = plain_outcome [OF plain fin ok v cap]
    have szA: "sz = ?A" using po(2) sz by simp
    have kR: "?k = ?R" using szA po(3) by simp
    have NR: "?N \<le> ?R" using V by (rule round_up_ge)
    have k: "32 \<le> ?k" using kR NR valid by simp
    note cm = common [OF k]
    note zf = zeroed_block_facts [of "w_block r" blk]
    have zb: "set_dsk_checksum (w_block r) 0 = Some blk" using cm by simp
    have lk: "length blk = ?k" using cm by simp
    have n20: "20 \<le> ?N" using valid by simp
    have hb: "dsk_size (w_block r) = Some ?A" "dsk_memsize (w_block r) = Some ?A"
      using po(5) [OF n20] by simp_all
    have "dsk_size (blk @ ?rest) = Some ?A" "dsk_memsize (blk @ ?rest) = Some ?A"
      using dsk_append_left(2,3) [of blk ?rest] lk k zf(2,3) [OF zb] hb by simp_all
    then have dec: "disk_read_decompress env ?s1 (rbuf\<lparr>buf_mem := blk @ ?rest\<rparr>)
        = Some (OK, ?s1, rbuf\<lparr>buf_mem := blk @ ?rest\<rparr>)"
      by (intro disk_read_decompress_plain [of _ ?A]) simp_all
    have d0: "d0 = buf_mem (p_buf p)"
      using st(1) not_compressed_simple(2) [OF plain(3)] by (simp add: dsk_deref_def)
    have "mem_read (blk @ ?rest) 32 (?N - 32) = mem_read blk 32 (?N - 32)"
      using lk kR NR valid by (intro mem_read_append_left) simp
    also have "\<dots> = mem_read (w_block r) 32 (?N - 32)"
      using zf(4) [OF zb, of 32] by simp
    also have "\<dots> = mem_read (take ?k d0) 32 (?N - 32)" using cm by simp
    also have "\<dots> = mem_read d0 32 (?N - 32)"
      using kR NR valid by (intro mem_read_take) simp
    also have "\<dots> = mem_read m2 32 (?N - 32)"
      using not_compressed_payload [OF plain(3), of 32 "?N - 32"] valid d0 by simp
    also have "\<dots> = mem_read (buf_mem buf) 32 (?N - 32)"
      using plain(1,2) by (rule header_set_read) simp
    finally have pl: "mem_read (blk @ ?rest) 32 (?N - 32) = mem_read (buf_mem buf) 32 (?N - 32)" .
    have "32 + (?N - 32) \<le> length (buf_mem buf)" using po(4) NR valid by simp
    then obtain payload where "mem_read (buf_mem buf) 32 (?N - 32) = Some payload"
      by (simp add: mem_read_def)
    with pl cm dec show ?thesis by simp
  next
    case (adopted m1 m2 c tm src out t1 t2 t3 t4)
    let ?A' = "WT_ALIGN (of_nat (length out) + 32) (allocsize s)"
    let ?R' = "round_up (length out + 32) ?V"
    note ao = adopted_outcome [OF adopted(1,2,5,7,8,9,10,11,12,13) fin ok v cap]
    have szA: "sz = ?A'" using ao(2) sz by simp
    have kR: "?k = ?R'" using szA ao(7) by simp
    have ge: "length out + 32 \<le> ?R'" using V by (rule round_up_ge)
    have k: "32 \<le> ?k" using kR ge by simp
    note cm = common [OF k]
    note zf = zeroed_block_facts [of "w_block r" blk]
    have zb: "set_dsk_checksum (w_block r) 0 = Some blk" using cm by simp
    have lk: "length blk = ?k" using cm by simp
    let ?b = "rbuf\<lparr>buf_mem := blk @ ?rest\<rparr>"
    have h1: "dsk_size (buf_mem ?b) = Some ?A'"
      using dsk_append_left(2) [of blk ?rest] lk k zf(2) [OF zb] ao(11) by simp
    have h2: "dsk_memsize (buf_mem ?b) = Some ?n"
      using dsk_append_left(3) [of blk ?rest] lk k zf(3) [OF zb] ao(12) by simp
    have "unat ?A' < ?N" using ao(7,10) by simp
    then have h3: "?A' \<noteq> ?n" by auto
    have ltm: "32 + length out \<le> length tm"
      using adopted(8) by (simp add: mem_write_def split: if_splits)
    obtain t1r where h5: "memcpy tm (buf_mem ?b) 32 = Some t1r"
      using memcpy_total [of 32 "buf_mem ?b" tm] lk k ltm by auto
    have "(32 :: u32) \<le> sz" using k by (simp add: word_le_nat_alt)
    then have sub: "unat (sz - 32) = ?k - 32" by (simp add: unat_sub)
    have "mem_read (blk @ ?rest) 32 (?k - 32) = mem_read blk 32 (?k - 32)"
      using lk k by (intro mem_read_append_left) simp
    also have "\<dots> = mem_read (w_block r) 32 (?k - 32)"
      using zf(4) [OF zb, of 32] by simp
    also have "\<dots> = Some (out @ replicate (?k - 32 - length out) 0)"
      using ao(14) szA by simp
    finally have h6: "mem_read (buf_mem ?b) 32 (unat (buf_size ?b - 32))
        = Some (out @ replicate (?k - 32 - length out) 0)"
      using rsize sub by simp
    have h7: "compressor ?s1 = Some c" using rs(2) adopted(3) by simp
    have cmp: "compress c src (?N - 32) = Some out" using adopted(6) ao(5) by simp
    have h8: "decompress c (out @ replicate (?k - 32 - length out) 0) (unat (?n - 32))
        = Some src"
      using codec ao(1) adopted(3) ao(6) cmp ao(5) by simp
    have ls: "length src = ?N - 32" using ao(6) by (rule mem_read_length)
    have h9: "length src \<le> unat (?n - 32)" using ls ao(5) by simp
    have "?N \<le> length tm" using scr adopted(4) by simp
    then have "32 + length src \<le> length t1r"
      using memcpy_length [OF h5] ls ao(4) by simp
    then obtain t2r where h10: "mem_write t1r 32 src = Some t2r"
      using mem_write_total by blast
    have dec: "disk_read_decompress env ?s1 ?b = Some (OK, ?s1, \<lparr>buf_mem = t2r, buf_size = ?n\<rparr>)"
      using h1 h2 h3 adopted(4) h5 h6 h7 h8 h9 h10 by (rule disk_read_decompress_swap)
    have "take 32 t2r = take 32 t1r" using h10 by (rule mem_write_take) simp
    also have "\<dots> = take 32 (blk @ ?rest)" using memcpy_take [OF h5] by simp
    finally have hdr: "take 32 t2r = take 32 (blk @ ?rest)" .
    have "mem_read t2r 32 (?N - 32) = Some src"
      using mem_read_write_same [OF h10] ls by simp
    with hdr cm dec ao(6) show ?thesis by simp
  qed
qed

theorem write_read_round_trip_witness:
  "\<exists>r s' b' payload.
     wt_disk_write demo_env demo_session demo_page = Some r \<and> w_dsk r = In_tmp \<and>
     wt_disk_read demo_env (w_session r) blank_buf 0 512 = Some (OK, s', b') \<and>
     set_dsk_checksum (take 32 (w_block r)) 0 = Some (take 32 (buf_mem b')) \<and>
     mem_read (buf_mem demo_page) 32 (unat (buf_size demo_page) - 32) = Some payload \<and>
     mem_read (buf_mem b') 32 (unat (buf_size demo_page) - 32) = Some payload"
proof -
  obtain r where r: "wt_disk_write demo_env demo_session demo_page = Some r"
    and ok: "w_ret r = OK" and dsk: "w_dsk r = In_tmp"
    and addr: "w_addr r = Some 0" and sz: "w_size r = Some 512"
    and rd: "wt_read demo_env (fh (w_session r)) (WT_ADDR_TO_OFF (w_session r) 0)
               (unat (512 :: u32)) = Some (w_block r)"
    by (rule demo_write_adopted)
  have v: "allocsize demo_session \<noteq> 0" by (simp add: demo_session_def)
  have valid: "32 \<le> unat (buf_size demo_page)" by (simp add: demo_page_def)
  have cap: "length (buf_mem demo_page) < 2 ^ 32" by (simp add: demo_page_def)
  have rsize: "buf_size blank_buf = 512" by (simp add: blank_buf_def)
  have rcap: "unat (512 :: u32) \<le> length (buf_mem blank_buf)" by (simp add: blank_buf_def)
  have scr: "\<forall>tm. wt_scr_mem demo_env (buf_size demo_page) = Some tm \<longrightarrow>
      unat (buf_size demo_page) \<le> length tm"
    by (auto simp: demo_env_def)
  have codec: "\<forall>c src out. w_dsk r = In_tmp \<and> compressor demo_session = Some c \<and>
      mem_read (buf_mem demo_page) 32 (unat (buf_size demo_page) - 32) = Some src \<and>
      compress c src (unat (buf_size demo_page) - 32) = Some out \<longrightarrow>
      decompress c (out @ replicate (unat (512 :: u32) - 32 - length out) 0)
        (unat (buf_size demo_page) - 32) = Some src"
  proof (intro allI impI, elim conjE)
    fix c src out
    assume c: "compressor demo_session = Some c"
      and src: "mem_read (buf_mem demo_page) 32 (unat (buf_size demo_page) - 32) = Some src"
      and out: "compress c src (unat (buf_size demo_page) - 32) = Some out"
    have c': "c = run_codec" using c by (simp add: demo_session_def)
    have src': "src = replicate 568 7" using src demo_page_payload by simp
    have out': "out = [7]" using out demo_page_compressed by (simp add: c' src')
    show "decompress c (out @ replicate (unat (512 :: u32) - 32 - length out) 0)
        (unat (buf_size demo_page) - 32) = Some src"
      by (simp add: c' src' out' run_codec_def run_decompress_def demo_page_def)
  qed
  from write_read_round_trip [OF r ok addr sz v valid cap rd rsize rcap scr codec] r dsk
  show ?thesis by blast
qed

subsection \<open>Sequences of writes\<close>

lemma write_ok_lsn:
  assumes w: "wt_disk_write env s buf = Some r" and ok: "w_ret r = OK"
    and l: "dsk_lsn (w_block r) = Some l"
  shows "l = WT_LSN_INCR (lsn s)" and "lsn (w_session r) = WT_LSN_INCR (lsn s)"
proof -
  from w ok obtain p where fin: "disk_write_finish env s p = Some r"
    by (rule wt_disk_write_ok)
  from fin ok obtain a' bl d0 d1 d2 blk d3 where
    st: "set_dsk_lsn d0 (WT_LSN_INCR (lsn s)) = Some d1"
      "set_dsk_checksum d1 0 = Some d2" "mem_read d2 0 (unat (p_align p)) = Some blk"
      "set_dsk_checksum d2 (wt_cksum env blk) = Some d3"
      "mem_read d3 0 (unat (p_align p)) = Some (w_block r)"
    and rs: "lsn (w_session r) = WT_LSN_INCR (lsn s)"
    by (rule finish_ok)
  show "lsn (w_session r) = WT_LSN_INCR (lsn s)" by (rule rs)
  have "length (w_block r) = unat (p_align p)" using st(5) by (rule mem_read_length)
  moreover have "20 \<le> length (w_block r)"
    using l by (simp add: hdr_defs mem_read_def split: if_splits)
  ultimately have k: "20 \<le> unat (p_align p)" by simp
  from stamp_facts(3) [OF st k] l show "l = WT_LSN_INCR (lsn s)" by simp
qed

lemma write_seq_lsns:
  "write_seq env s bufs = Some ls \<Longrightarrow>
     ls = map (\<lambda>i. lsn s + of_nat (Suc i)) [0..<length bufs]"
proof (induction bufs arbitrary: s ls)
  case Nil
  then show ?case by simp
next
  case (Cons b bs)
  from Cons.prems obtain r l ls' where r: "wt_disk_write env s b = Some r"
    and ok: "w_ret r = OK" and l: "dsk_lsn (w_block r) = Some l"
    and ls': "write_seq env (w_session r) bs = Some ls'" and ls: "ls = l # ls'"
    by (auto split: option.splits if_splits bind_splits)
  note wl = write_ok_lsn [OF r ok l]
  have "ls' = map (\<lambda>i. lsn (w_session r) + of_nat (Suc i)) [0..<length bs]"
    using ls' by (rule Cons.IH)
  then have "ls' = map (\<lambda>i. lsn s + of_nat (Suc (Suc i))) [0..<length bs]"
    using wl(2) by (simp add: WT_LSN_INCR_def add.assoc add.commute)
  moreover have "l = lsn s + of_nat (Suc 0)" using wl(1) by (simp add: WT_LSN_INCR_def)
  ultimately show ?case using ls by (simp add: map_upt_Suc del: upt_Suc)
qed

text \<open>
  C6, as the specification states it, does not hold for every sequence: the
  counter is a 64-bit value and \<^verbatim>\<open>WT_LSN_INCR\<close> wraps. On a btree whose counter is
  two steps from the end of the range, two successful writes stamp the largest
  value and then zero.
\<close>

theorem lsn_wraps_around:
  "write_seq demo_env wrap_session [small_page, small_page]
     = Some [18446744073709551615, 0] \<and>
   \<not> (18446744073709551615 :: u64) < 0"
  by code_simp

text \<open>
  C6, amended. For a sequence of successful writes on one btree that does not
  take the 64-bit counter past its largest value, the \<^verbatim>\<open>lsn\<close> in the header of the
  \<open>i\<close>-th persisted block is the counter before the sequence plus \<open>i\<close> (counting
  from one): each write increments the counter and stamps the new value, so each
  stamp is strictly greater than every earlier one.
\<close>

theorem lsn_strictly_increasing:
  assumes "write_seq env s bufs = Some ls"
    and nowrap: "unat (lsn s) + length bufs < 2 ^ 64"
  shows "length ls = length bufs \<and> (\<forall>i<length ls. ls ! i = lsn s + of_nat (Suc i)) \<and>
     sorted_wrt (<) ls"
proof -
  have ls: "ls = map (\<lambda>i. lsn s + of_nat (Suc i)) [0..<length bufs]"
    using assms(1) by (rule write_seq_lsns)
  have un: "unat (lsn s + of_nat k) = unat (lsn s) + k" if "k \<le> length bufs" for k
  proof -
    have "k < 2 ^ 64" using that nowrap by simp
    then have "unat (of_nat k :: u64) = k" by (simp add: unat_of_nat)
    moreover have "unat (lsn s) + k < 2 ^ 64" using that nowrap by simp
    ultimately show ?thesis
      using unat_add_lem [of "lsn s" "of_nat k"] by simp
  qed
  have "sorted_wrt (<) ls"
    unfolding sorted_wrt_iff_nth_less
  proof (intro allI impI)
    fix i j assume "i < j" "j < length ls"
    then have "Suc i \<le> length bufs" "Suc j \<le> length bufs" using ls by simp_all
    then have "unat (lsn s + of_nat (Suc i)) < unat (lsn s + of_nat (Suc j))"
      using \<open>i < j\<close> by (simp only: un)
    then show "ls ! i < ls ! j"
      using \<open>i < j\<close> \<open>j < length ls\<close>
      by (simp add: ls word_less_nat_alt del: of_nat_Suc)
  qed
  then show ?thesis using ls by simp
qed

theorem lsn_strictly_increasing_witness:
  "write_seq demo_env plain_session [small_page, small_page] = Some [42, 43] \<and>
   sorted_wrt (<) [42, 43 :: u64]"
proof -
  have e: "write_seq demo_env plain_session [small_page, small_page] = Some [42, 43]"
    by code_simp
  have nowrap: "unat (lsn plain_session) + length [small_page, small_page] < 2 ^ 64"
    by (simp add: plain_session_def demo_session_def)
  from lsn_strictly_increasing [OF e nowrap] e show ?thesis by simp
qed

end
